theory Spec2Isabelle
  imports Main "HOL-Library.Sublist"
begin

section \<open>Shared data: thrown values, modes, tracked files\<close>

text \<open>
  A JavaScript exception is any value. The handlers of the extension only distinguish
  \<open>error instanceof Error\<close> (whose \<open>message\<close> they read) from everything else.
\<close>

datatype thrown = ErrorObj string | NonError

text \<open>\<open>enum ExtensionMode { Edit = 'edit', Agent = 'agent', Ask = 'ask' }\<close> of types/index.ts.\<close>

datatype ExtensionMode = Edit | Agent | Ask

fun modeValue :: "ExtensionMode \<Rightarrow> string" where
  "modeValue Edit = ''edit''"
| "modeValue Agent = ''agent''"
| "modeValue Ask = ''ask''"

text \<open>
  A \<open>vscode.Uri\<close> is compared through \<open>toString()\<close> only, so it is modelled by that
  string. \<open>content?: string\<close> is optional: \<open>None\<close> is \<open>undefined\<close>.
\<close>

type_synonym uri = string

record ContextFile =
  uri :: uri
  name :: string
  relativePath :: string
  content :: "string option"
  isActive :: bool

subsection \<open>JavaScript helpers\<close>

text \<open>\<open>Array.prototype.indexOf\<close>: the first index, or \<open>-1\<close>.\<close>

fun indexOf :: "'a list \<Rightarrow> 'a \<Rightarrow> int" where
  "indexOf [] x = - 1"
| "indexOf (y # ys) x =
     (if y = x then 0 else (let i = indexOf ys x in if i < 0 then - 1 else i + 1))"

text \<open>\<open>Array.prototype.join\<close> on strings.\<close>

fun join :: "string \<Rightarrow> string list \<Rightarrow> string" where
  "join sep [] = []"
| "join sep [x] = x"
| "join sep (x # y # ys) = x @ sep @ join sep (y # ys)"

text \<open>\<open>String.prototype.toUpperCase\<close> on ASCII letters.\<close>

definition toUpperCase :: "string \<Rightarrow> string" where
  "toUpperCase s =
     map (\<lambda>c. let n = (of_char c :: nat) in if 97 \<le> n \<and> n \<le> 122 then char_of (n - 32) else c) s"

text \<open>Truthiness of an optional string: \<open>undefined\<close> and \<open>''\<close> are falsy.\<close>

fun truthy :: "string option \<Rightarrow> bool" where
  "truthy None = False"
| "truthy (Some s) = (s \<noteq> [])"

text \<open>
  A template literal prints \<open>undefined\<close> for a missing value; the code only interpolates
  \<open>f.content\<close> behind the truthiness filter.
\<close>

fun interpolate :: "string option \<Rightarrow> string" where
  "interpolate None = ''undefined''"
| "interpolate (Some s) = s"

section \<open>Mode state machine (ModeManager)\<close>

record ModeManager =
  currentMode :: ExtensionMode
  fired :: "ExtensionMode list"
  modeMessages :: "string list"

definition initialModeManager :: ModeManager where
  "initialModeManager = \<lparr>currentMode = Ask, fired = [], modeMessages = []\<rparr>"

text \<open>\<open>Object.values(ExtensionMode)\<close>: the members in declaration order.\<close>

definition modes :: "ExtensionMode list" where
  "modes = [Edit, Agent, Ask]"

definition setMode :: "ExtensionMode \<Rightarrow> ModeManager \<Rightarrow> ModeManager" where
  "setMode m s =
     (if currentMode s \<noteq> m
      then s\<lparr>currentMode := m,
             fired := fired s @ [m],
             modeMessages := modeMessages s @ [''Switched to '' @ toUpperCase (modeValue m) @ '' mode'']\<rparr>
      else s)"

definition switchMode :: "ModeManager \<Rightarrow> ModeManager" where
  "switchMode s =
     (let currentIndex = indexOf modes (currentMode s);
          nextIndex = (currentIndex + 1) mod int (length modes)
      in setMode (modes ! nat nextIndex) s)"

section \<open>Context set (ContextProvider)\<close>

datatype notice = Information string | ErrorMessage string

record host =
  openDocument :: "uri \<Rightarrow> thrown + string"
  workspaceRelative :: "uri \<Rightarrow> string option"
  basename :: "uri \<Rightarrow> string"

text \<open>
  The host editor as the context set sees it: \<open>openDocument u\<close> is the outcome of
  \<open>vscode.workspace.openTextDocument(u)\<close> followed by \<open>getText()\<close>;
  \<open>workspaceRelative u\<close> is \<open>path.relative(folder, u.fsPath)\<close> when \<open>u\<close> lies in a
  workspace folder; \<open>basename u\<close> is \<open>path.basename(u.fsPath)\<close>.
\<close>

record ContextProvider =
  contextFiles :: "ContextFile list"
  notices :: "notice list"
  refreshes :: nat

definition emptyProvider :: ContextProvider where
  "emptyProvider = \<lparr>contextFiles = [], notices = [], refreshes = 0\<rparr>"

definition refresh :: "ContextProvider \<Rightarrow> ContextProvider" where
  "refresh s = s\<lparr>refreshes := Suc (refreshes s)\<rparr>"

definition showNotice :: "notice \<Rightarrow> ContextProvider \<Rightarrow> ContextProvider" where
  "showNotice n s = s\<lparr>notices := notices s @ [n]\<rparr>"

text \<open>
  \<open>addFile\<close> is an async function with one \<open>await\<close>, on \<open>openTextDocument\<close>. The part
  before it runs without interruption: the test for an existing entry, which either shows
  the notice and returns (\<open>Some\<close> the new state) or suspends the call (\<open>None\<close>). The part
  after it runs when the read has settled: it reports a failed read, or pushes the new
  entry onto whatever the list is by then.
\<close>

definition addFileStart :: "host \<Rightarrow> uri \<Rightarrow> ContextProvider \<Rightarrow> ContextProvider option" where
  "addFileStart h u s =
     (case find (\<lambda>f. uri f = u) (contextFiles s) of
        Some existing \<Rightarrow>
          Some (showNotice (Information (''File '' @ basename h u @ '' is already in context'')) s)
      | None \<Rightarrow> None)"

definition addFileResume :: "host \<Rightarrow> uri \<Rightarrow> ContextProvider \<Rightarrow> ContextProvider" where
  "addFileResume h u s =
     (case openDocument h u of
        Inl err \<Rightarrow>
          showNotice (ErrorMessage (''Failed to read file: '' @
            (case err of ErrorObj m \<Rightarrow> m | NonError \<Rightarrow> ''Unknown error''))) s
      | Inr text \<Rightarrow>
          (let relPath = (case workspaceRelative h u of
                            Some r \<Rightarrow> r
                          | None \<Rightarrow> basename h u);
               contextFile = \<lparr>uri = u, name = basename h u, relativePath = relPath,
                              content = Some text, isActive = True\<rparr>
           in showNotice (Information (''Added '' @ name contextFile @ '' to context''))
                (refresh (s\<lparr>contextFiles := contextFiles s @ [contextFile]\<rparr>))))"

text \<open>A call of \<open>addFile\<close> that nothing else interrupts: both parts, one after the other.\<close>

definition addFile :: "host \<Rightarrow> uri \<Rightarrow> ContextProvider \<Rightarrow> ContextProvider" where
  "addFile h u s =
     (case addFileStart h u s of
        Some done \<Rightarrow> done
      | None \<Rightarrow> addFileResume h u s)"

text \<open>\<open>findIndex\<close> and \<open>splice(index, 1)\<close>: the first match is cut out and returned.\<close>

fun spliceFirst :: "('a \<Rightarrow> bool) \<Rightarrow> 'a list \<Rightarrow> ('a \<times> 'a list) option" where
  "spliceFirst P [] = None"
| "spliceFirst P (x # xs) =
     (if P x then Some (x, xs)
      else (case spliceFirst P xs of None \<Rightarrow> None | Some (r, ys) \<Rightarrow> Some (r, x # ys)))"

definition removeFile :: "uri \<Rightarrow> ContextProvider \<Rightarrow> ContextProvider" where
  "removeFile u s =
     (case spliceFirst (\<lambda>f. uri f = u) (contextFiles s) of
        None \<Rightarrow> s
      | Some (removed, rest) \<Rightarrow>
          showNotice (Information (''Removed '' @ name removed @ '' from context''))
            (refresh (s\<lparr>contextFiles := rest\<rparr>)))"

text \<open>\<open>find\<close> returns the first matching object, whose flag is flipped in place.\<close>

fun flipFirst :: "uri \<Rightarrow> ContextFile list \<Rightarrow> ContextFile list option" where
  "flipFirst u [] = None"
| "flipFirst u (f # fs) =
     (if uri f = u then Some (f\<lparr>isActive := \<not> isActive f\<rparr> # fs)
      else map_option ((#) f) (flipFirst u fs))"

definition toggleFileActive :: "uri \<Rightarrow> ContextProvider \<Rightarrow> ContextProvider" where
  "toggleFileActive u s =
     (case flipFirst u (contextFiles s) of
        None \<Rightarrow> s
      | Some fs \<Rightarrow> refresh (s\<lparr>contextFiles := fs\<rparr>))"

definition clearContext :: "ContextProvider \<Rightarrow> ContextProvider" where
  "clearContext s =
     showNotice (Information ''Context cleared'') (refresh (s\<lparr>contextFiles := []\<rparr>))"

definition getContextFiles :: "ContextProvider \<Rightarrow> ContextFile list" where
  "getContextFiles s = filter isActive (contextFiles s)"

definition fileBlock :: "ContextFile \<Rightarrow> string" where
  "fileBlock f = ''// File: '' @ relativePath f @ [CHR 0x0A] @ interpolate (content f)"

definition blockSeparator :: string where
  "blockSeparator = [CHR 0x0A, CHR 0x0A] @ ''---'' @ [CHR 0x0A, CHR 0x0A]"

definition getActiveContextContent :: "ContextProvider \<Rightarrow> string" where
  "getActiveContextContent s =
     join blockSeparator
       (map fileBlock (filter (\<lambda>f. isActive f \<and> truthy (content f)) (contextFiles s)))"

text \<open>The operations a user can issue on the context set, and a run of them.\<close>

datatype contextOp = Add uri | Remove uri | ToggleActive uri | Clear

fun applyOp :: "host \<Rightarrow> contextOp \<Rightarrow> ContextProvider \<Rightarrow> ContextProvider" where
  "applyOp h (Add u) s = addFile h u s"
| "applyOp h (Remove u) s = removeFile u s"
| "applyOp h (ToggleActive u) s = toggleFileActive u s"
| "applyOp h Clear s = clearContext s"

definition runOps :: "host \<Rightarrow> contextOp list \<Rightarrow> ContextProvider \<Rightarrow> ContextProvider" where
  "runOps h ops s = fold (applyOp h) ops s"






section \<open>Host model: paths, directory tree, effects\<close>

text \<open>
  Node's \<open>path\<close> module on POSIX, for absolute paths: \<open>path.join\<close> concatenates with
  \<open>/\<close> and normalises (empty and \<open>.\<close> segments vanish, \<open>..\<close> drops the segment before
  it); \<open>path.dirname\<close> drops the last segment.
\<close>

fun splitOn :: "char \<Rightarrow> string \<Rightarrow> string list" where
  "splitOn sep [] = [[]]"
| "splitOn sep (c # cs) =
     (if c = sep then [] # splitOn sep cs
      else (case splitOn sep cs of [] \<Rightarrow> [[c]] | x # xs \<Rightarrow> (c # x) # xs))"

definition normalize :: "string list \<Rightarrow> string list" where
  "normalize cs =
     fold (\<lambda>c acc. if c = [] \<or> c = ''.'' then acc
                    else if c = ''..'' then butlast acc
                    else acc @ [c]) cs []"

definition segments :: "string \<Rightarrow> string list" where
  "segments p = normalize (splitOn CHR ''/'' p)"

definition render :: "string list \<Rightarrow> string" where
  "render cs = (if cs = [] then ''/'' else concat (map (\<lambda>c. CHR ''/'' # c) cs))"

definition pathJoin :: "string \<Rightarrow> string \<Rightarrow> string" where
  "pathJoin a b = render (segments (a @ ''/'' @ b))"

definition pathDirname :: "string \<Rightarrow> string" where
  "pathDirname p = render (butlast (segments p))"

text \<open>\<open>String(n)\<close> for a non-negative integer: its decimal digits.\<close>

fun showNat :: "nat \<Rightarrow> string" where
  "showNat n =
     (if n < 10 then [char_of (48 + n)] else showNat (n div 10) @ [char_of (48 + n mod 10)])"

declare showNat.simps [simp del]

text \<open>\<open>s.endsWith(t)\<close> and \<open>s.replace(pat, rep)\<close> with a string pattern (first occurrence only).\<close>

definition endsWith :: "string \<Rightarrow> string \<Rightarrow> bool" where
  "endsWith s t = suffix t s"

fun replaceFirst :: "string \<Rightarrow> string \<Rightarrow> string \<Rightarrow> string" where
  "replaceFirst pat rep [] = (if pat = [] then rep else [])"
| "replaceFirst pat rep (c # cs) =
     (if prefix pat (c # cs) then rep @ drop (length pat) (c # cs)
      else c # replaceFirst pat rep cs)"

text \<open>
  The file system is a tree; a directory lists its entries by name. The operations are
  those of \<open>fs.promises\<close> that the service calls: \<open>mkdir\<close> with \<open>recursive: true\<close>,
  \<open>writeFile\<close>, \<open>readFile\<close>, \<open>readdir\<close> and \<open>rm\<close> with \<open>recursive: true, force: true\<close>.
\<close>

datatype node = File string | Dir "(string \<times> node) list"

fun putEntry :: "string \<Rightarrow> node \<Rightarrow> (string \<times> node) list \<Rightarrow> (string \<times> node) list" where
  "putEntry k v [] = [(k, v)]"
| "putEntry k v ((k', v') # es) = (if k' = k then (k, v) # es else (k', v') # putEntry k v es)"

definition dropEntry :: "string \<Rightarrow> (string \<times> node) list \<Rightarrow> (string \<times> node) list" where
  "dropEntry k es = filter (\<lambda>kv. fst kv \<noteq> k) es"

fun lookup :: "node \<Rightarrow> string list \<Rightarrow> node option" where
  "lookup n [] = Some n"
| "lookup (File c) (p # ps) = None"
| "lookup (Dir es) (p # ps) = (case map_of es p of None \<Rightarrow> None | Some ch \<Rightarrow> lookup ch ps)"

fun mkdirp :: "node \<Rightarrow> string list \<Rightarrow> node option" where
  "mkdirp (Dir es) [] = Some (Dir es)"
| "mkdirp (File c) ps = None"
| "mkdirp (Dir es) (p # ps) =
     (case mkdirp (case map_of es p of None \<Rightarrow> Dir [] | Some ch \<Rightarrow> ch) ps of
        None \<Rightarrow> None
      | Some n \<Rightarrow> Some (Dir (putEntry p n es)))"

fun writeAt :: "node \<Rightarrow> string list \<Rightarrow> string \<Rightarrow> node option" where
  "writeAt n [] c = None"
| "writeAt (File x) (p # ps) c = None"
| "writeAt (Dir es) [p] c =
     (case map_of es p of
        Some (Dir sub) \<Rightarrow> None
      | _ \<Rightarrow> Some (Dir (putEntry p (File c) es)))"
| "writeAt (Dir es) (p # q # ps) c =
     (case map_of es p of
        None \<Rightarrow> None
      | Some ch \<Rightarrow>
          (case writeAt ch (q # ps) c of
             None \<Rightarrow> None
           | Some n \<Rightarrow> Some (Dir (putEntry p n es))))"

fun rmAt :: "node \<Rightarrow> string list \<Rightarrow> node" where
  "rmAt n [] = n"
| "rmAt (File x) (p # ps) = File x"
| "rmAt (Dir es) [p] = Dir (dropEntry p es)"
| "rmAt (Dir es) (p # q # ps) =
     (case map_of es p of
        None \<Rightarrow> Dir es
      | Some ch \<Rightarrow> Dir (putEntry p (rmAt ch (q # ps)) es))"

text \<open>Every effect the service has on its surroundings is recorded, in order.\<close>

datatype event =
    Mkdir string
  | WriteFile string string
  | Exec string
  | Readdir string
  | ReadFile string
  | Rm string
  | ShowInformationMessage string
  | OpenTextDocument uri
  | ApplyEdit uri string
  | ConsoleWarn string

text \<open>
  \<open>execAsync\<close> resolves with \<open>{stdout, stderr}\<close> when the process exits with code 0 and
  rejects otherwise (non-zero exit, spawn failure, timeout).
\<close>

datatype execResult = Resolved string string | Rejected thrown

text \<open>
  What the service cannot decide itself: the configured executable, \<open>os.tmpdir()\<close>,
  \<open>Date.now()\<close>, which host operation rejects (and with what), what the external tool
  prints and does to the disk, and what the user answers to a prompt.
\<close>

record env =
  cliPath :: string
  tmpdir :: string
  dateNow :: nat
  fault :: "event \<Rightarrow> thrown option"
  tool :: "string \<Rightarrow> node \<Rightarrow> execResult \<times> node"
  userChoice :: "string \<Rightarrow> string option"

record world =
  disk :: node
  documents :: "uri \<Rightarrow> string option"
  trace :: "event list"

definition emit :: "event \<Rightarrow> world \<Rightarrow> world" where
  "emit ev w = w\<lparr>trace := trace w @ [ev]\<rparr>"

definition mkdir :: "env \<Rightarrow> string \<Rightarrow> world \<Rightarrow> (thrown + unit) \<times> world" where
  "mkdir e p w =
     (let w1 = emit (Mkdir p) w in
      case fault e (Mkdir p) of
        Some t \<Rightarrow> (Inl t, w1)
      | None \<Rightarrow>
          (case mkdirp (disk w1) (segments p) of
             None \<Rightarrow> (Inl (ErrorObj ''EEXIST''), w1)
           | Some n \<Rightarrow> (Inr (), w1\<lparr>disk := n\<rparr>)))"

definition writeFile :: "env \<Rightarrow> string \<Rightarrow> string \<Rightarrow> world \<Rightarrow> (thrown + unit) \<times> world" where
  "writeFile e p c w =
     (let w1 = emit (WriteFile p c) w in
      case fault e (WriteFile p c) of
        Some t \<Rightarrow> (Inl t, w1)
      | None \<Rightarrow>
          (case writeAt (disk w1) (segments p) c of
             None \<Rightarrow> (Inl (ErrorObj ''ENOENT''), w1)
           | Some n \<Rightarrow> (Inr (), w1\<lparr>disk := n\<rparr>)))"

definition readFile :: "env \<Rightarrow> string \<Rightarrow> world \<Rightarrow> (thrown + string) \<times> world" where
  "readFile e p w =
     (let w1 = emit (ReadFile p) w in
      case fault e (ReadFile p) of
        Some t \<Rightarrow> (Inl t, w1)
      | None \<Rightarrow>
          (case lookup (disk w1) (segments p) of
             Some (File c) \<Rightarrow> (Inr c, w1)
           | Some (Dir es) \<Rightarrow> (Inl (ErrorObj ''EISDIR''), w1)
           | None \<Rightarrow> (Inl (ErrorObj ''ENOENT''), w1)))"

definition rm :: "env \<Rightarrow> string \<Rightarrow> world \<Rightarrow> (thrown + unit) \<times> world" where
  "rm e p w =
     (let w1 = emit (Rm p) w in
      case fault e (Rm p) of
        Some t \<Rightarrow> (Inl t, w1)
      | None \<Rightarrow>
          (if segments p = [] then (Inl (ErrorObj ''EPERM''), w1)
           else (Inr (), w1\<lparr>disk := rmAt (disk w1) (segments p)\<rparr>)))"

text \<open>
  \<open>vscode.workspace.openTextDocument\<close> rejects for a document the host cannot open;
  \<open>applyEdit\<close> with a replace of the full range sets the whole text.
\<close>

definition openTextDocument :: "env \<Rightarrow> uri \<Rightarrow> world \<Rightarrow> (thrown + string) \<times> world" where
  "openTextDocument e u w =
     (let w1 = emit (OpenTextDocument u) w in
      case fault e (OpenTextDocument u) of
        Some t \<Rightarrow> (Inl t, w1)
      | None \<Rightarrow>
          (case documents w1 u of
             None \<Rightarrow> (Inl (ErrorObj ''cannot open''), w1)
           | Some text \<Rightarrow> (Inr text, w1)))"

definition applyEdit :: "uri \<Rightarrow> string \<Rightarrow> world \<Rightarrow> world" where
  "applyEdit u newText w = (emit (ApplyEdit u newText) w)\<lparr>documents := (documents w)(u \<mapsto> newText)\<rparr>"

section \<open>The service (CodeForgeService)\<close>

definition buildContextContent :: "ContextFile list \<Rightarrow> string" where
  "buildContextContent contextFiles' =
     join blockSeparator
       (map fileBlock (filter (\<lambda>f. isActive f \<and> truthy (content f)) contextFiles'))"

definition commandLine :: "env \<Rightarrow> string list \<Rightarrow> string" where
  "commandLine e args =
     (if cliPath e \<noteq> [] then cliPath e else ''codeforgeai'') @ '' '' @ join '' '' args"

definition executeCommand :: "env \<Rightarrow> string list \<Rightarrow> world \<Rightarrow> (thrown + string) \<times> world" where
  "executeCommand e args w =
     (let command = commandLine e args;
          w1 = emit (Exec command) w;
          ran = tool e command (disk w1);
          w2 = w1\<lparr>disk := snd ran\<rparr>;
          attempt =
            (case fst ran of
               Rejected t \<Rightarrow> Inl t
             | Resolved stdout stderr \<Rightarrow>
                 if stderr \<noteq> [] \<and> stdout = [] then Inl (ErrorObj stderr)
                 else Inr (if stdout \<noteq> [] then stdout
                           else if stderr \<noteq> [] then stderr
                           else ''Command executed successfully''))
      in case attempt of
           Inr out \<Rightarrow> (Inr out, w2)
         | Inl (ErrorObj m) \<Rightarrow> (Inl (ErrorObj (''CodeForgeAI CLI error: '' @ m)), w2)
         | Inl NonError \<Rightarrow> (Inl (ErrorObj ''Unknown error executing CodeForgeAI CLI''), w2))"

definition tempDirOf :: "env \<Rightarrow> string" where
  "tempDirOf e = pathJoin (tmpdir e) (''codeforgex-'' @ showNat (dateNow e))"

fun stageFiles :: "env \<Rightarrow> string \<Rightarrow> ContextFile list \<Rightarrow> world \<Rightarrow> (thrown + unit) \<times> world" where
  "stageFiles e tempDir [] w = (Inr (), w)"
| "stageFiles e tempDir (file # rest) w =
     (case content file of
        None \<Rightarrow> stageFiles e tempDir rest w
      | Some text \<Rightarrow>
          if text = [] then stageFiles e tempDir rest w
          else
            (let filePath = pathJoin tempDir (relativePath file) in
             case mkdir e (pathDirname filePath) w of
               (Inl t, w1) \<Rightarrow> (Inl t, w1)
             | (Inr u, w1) \<Rightarrow>
                 (case writeFile e filePath text w1 of
                    (Inl t, w2) \<Rightarrow> (Inl t, w2)
                  | (Inr u', w2) \<Rightarrow> stageFiles e tempDir rest w2)))"

definition createTempContext :: "env \<Rightarrow> ContextFile list \<Rightarrow> world \<Rightarrow> (thrown + string) \<times> world" where
  "createTempContext e contextFiles' w =
     (let tempDir = tempDirOf e in
      case mkdir e tempDir w of
        (Inl t, w1) \<Rightarrow> (Inl t, w1)
      | (Inr u, w1) \<Rightarrow>
          (case stageFiles e tempDir contextFiles' w1 of
             (Inl t, w2) \<Rightarrow> (Inl t, w2)
           | (Inr u', w2) \<Rightarrow> (Inr tempDir, w2)))"

text \<open>
  \<open>traverse\<close> reads a directory, descends into every sub-directory and pushes the full
  path of every other entry whose name ends with the sentinel suffix onto \<open>editFiles\<close>.
\<close>

fun traverse :: "env \<Rightarrow> string \<Rightarrow> node \<Rightarrow> string list \<Rightarrow> world \<Rightarrow> (thrown + string list) \<times> world"
  and traverseEntries :: "env \<Rightarrow> string \<Rightarrow> (string \<times> node) list \<Rightarrow> string list \<Rightarrow> world
                            \<Rightarrow> (thrown + string list) \<times> world" where
  "traverse e currentDir (File c) editFiles w =
     (Inl (ErrorObj ''ENOTDIR''), emit (Readdir currentDir) w)"
| "traverse e currentDir (Dir entries) editFiles w =
     (case fault e (Readdir currentDir) of
        Some t \<Rightarrow> (Inl t, emit (Readdir currentDir) w)
      | None \<Rightarrow> traverseEntries e currentDir entries editFiles (emit (Readdir currentDir) w))"
| "traverseEntries e currentDir [] editFiles w = (Inr editFiles, w)"
| "traverseEntries e currentDir ((entryName, File c) # rest) editFiles w =
     (if endsWith entryName ''.codeforgedit''
      then traverseEntries e currentDir rest (editFiles @ [pathJoin currentDir entryName]) w
      else traverseEntries e currentDir rest editFiles w)"
| "traverseEntries e currentDir ((entryName, Dir sub) # rest) editFiles w =
     (case traverse e (pathJoin currentDir entryName) (Dir sub) editFiles w of
        (Inl t, w1) \<Rightarrow> (Inl t, w1)
      | (Inr found, w1) \<Rightarrow> traverseEntries e currentDir rest found w1)"

definition findEditFiles :: "env \<Rightarrow> string \<Rightarrow> world \<Rightarrow> (thrown + string list) \<times> world" where
  "findEditFiles e dir w =
     (case lookup (disk w) (segments dir) of
        None \<Rightarrow> (Inl (ErrorObj ''ENOENT''), emit (Readdir dir) w)
      | Some n \<Rightarrow> traverse e dir n [] w)"

text \<open>One turn of the loop of \<open>_applyAllEdits\<close>, and the loop.\<close>

definition applyOneEdit :: "env \<Rightarrow> string \<Rightarrow> ContextFile list \<Rightarrow> world \<Rightarrow> (thrown + unit) \<times> world" where
  "applyOneEdit e editFile originalFiles w =
     (let originalPath = replaceFirst ''.codeforgedit'' [] editFile in
      case find (\<lambda>f. endsWith originalPath (relativePath f)) originalFiles of
        None \<Rightarrow> (Inr (), w)
      | Some originalFile \<Rightarrow>
          (case readFile e editFile w of
             (Inl t, w1) \<Rightarrow> (Inl t, w1)
           | (Inr editedContent, w1) \<Rightarrow>
               (case openTextDocument e (uri originalFile) w1 of
                  (Inl t, w2) \<Rightarrow> (Inl t, w2)
                | (Inr document, w2) \<Rightarrow>
                    (Inr (), applyEdit (uri originalFile) editedContent w2))))"

fun applyEditsLoop :: "env \<Rightarrow> string list \<Rightarrow> ContextFile list \<Rightarrow> world \<Rightarrow> (thrown + unit) \<times> world" where
  "applyEditsLoop e [] originalFiles w = (Inr (), w)"
| "applyEditsLoop e (editFile # rest) originalFiles w =
     (case applyOneEdit e editFile originalFiles w of
        (Inl t, w1) \<Rightarrow> (Inl t, w1)
      | (Inr u, w1) \<Rightarrow> applyEditsLoop e rest originalFiles w1)"

definition applyAllEdits :: "env \<Rightarrow> string list \<Rightarrow> ContextFile list \<Rightarrow> world \<Rightarrow> (thrown + unit) \<times> world" where
  "applyAllEdits e editFiles originalFiles w =
     (case applyEditsLoop e editFiles originalFiles w of
        (Inl t, w1) \<Rightarrow> (Inl t, w1)
      | (Inr u, w1) \<Rightarrow> (Inr (), emit (ShowInformationMessage ''All edits applied successfully!'') w1))"

definition reviewEdits :: "env \<Rightarrow> string list \<Rightarrow> ContextFile list \<Rightarrow> world \<Rightarrow> (thrown + unit) \<times> world" where
  "reviewEdits e editFiles originalFiles w =
     (Inr (), emit (ShowInformationMessage ''Review mode not yet implemented'') w)"

definition foundMessage :: "string list \<Rightarrow> string" where
  "foundMessage editFiles =
     ''Found '' @ showNat (length editFiles) @ '' edited file(s). Apply changes?''"

definition handleEditResults :: "env \<Rightarrow> string \<Rightarrow> ContextFile list \<Rightarrow> world \<Rightarrow> (thrown + unit) \<times> world" where
  "handleEditResults e tempDir originalFiles w =
     (case findEditFiles e tempDir w of
        (Inl t, w1) \<Rightarrow> (Inl t, w1)
      | (Inr editFiles, w1) \<Rightarrow>
          if length editFiles > 0 then
            (let w2 = emit (ShowInformationMessage (foundMessage editFiles)) w1;
                 action = userChoice e (foundMessage editFiles)
             in if action = Some ''Apply All'' then applyAllEdits e editFiles originalFiles w2
                else if action = Some ''Review Each'' then reviewEdits e editFiles originalFiles w2
                else (Inr (), w2))
          else (Inr (), w1))"

definition cleanupTempDir :: "env \<Rightarrow> string \<Rightarrow> world \<Rightarrow> (thrown + unit) \<times> world" where
  "cleanupTempDir e tempDir w =
     (case rm e tempDir w of
        (Inl t, w1) \<Rightarrow>
          (Inr (), emit (ConsoleWarn (''Failed to cleanup temp directory: '' @ tempDir)) w1)
      | (Inr u, w1) \<Rightarrow> (Inr (), w1))"

definition noFilesMessage :: string where
  "noFilesMessage = ''No files in context for editing. Please add files to context first.''"

definition quoted :: "string \<Rightarrow> string" where
  "quoted s = [CHR 0x22] @ s @ [CHR 0x22]"

text \<open>The body of the \<open>try\<close> block of \<open>processEdit\<close>.\<close>

definition editAttempt :: "env \<Rightarrow> string \<Rightarrow> string \<Rightarrow> ContextFile list \<Rightarrow> world \<Rightarrow> (thrown + string) \<times> world" where
  "editAttempt e request tempDir contextFiles' w =
     (case executeCommand e [''edit'', tempDir, ''--user_prompt'', quoted request] w of
        (Inl t, w1) \<Rightarrow> (Inl t, w1)
      | (Inr result, w1) \<Rightarrow>
          (case handleEditResults e tempDir contextFiles' w1 of
             (Inl t, w2) \<Rightarrow> (Inl t, w2)
           | (Inr u, w2) \<Rightarrow> (Inr result, w2)))"

text \<open>\<open>try { body } finally { fin }\<close>: \<open>fin\<close> always runs; its own exception wins.\<close>

definition tryFinally ::
  "(world \<Rightarrow> (thrown + 'a) \<times> world) \<Rightarrow> (world \<Rightarrow> (thrown + unit) \<times> world) \<Rightarrow> world \<Rightarrow> (thrown + 'a) \<times> world" where
  "tryFinally body fin w =
     (case body w of
        (r, w1) \<Rightarrow> (case fin w1 of (Inl t, w2) \<Rightarrow> (Inl t, w2) | (Inr u, w2) \<Rightarrow> (r, w2)))"

definition processEdit :: "env \<Rightarrow> string \<Rightarrow> ContextFile list \<Rightarrow> world \<Rightarrow> (thrown + string) \<times> world" where
  "processEdit e request contextFiles' w =
     (if length contextFiles' = 0 then (Inl (ErrorObj noFilesMessage), w)
      else
        (case createTempContext e contextFiles' w of
           (Inl t, w1) \<Rightarrow> (Inl t, w1)
         | (Inr tempDir, w1) \<Rightarrow>
             tryFinally (editAttempt e request tempDir contextFiles') (cleanupTempDir e tempDir) w1))"

section \<open>The spec's reading of the content blob, and concrete scenarios\<close>

text \<open>
  The specification's wording of \<open>activeContentBlob()\<close>: every active file as a labelled
  block, joined by the separator, in set order. It is compared with the code's
  \<open>getActiveContextContent\<close> below.
\<close>

definition spec_activeContentBlob :: "ContextFile list \<Rightarrow> string" where
  "spec_activeContentBlob files = join blockSeparator (map fileBlock (filter isActive files))"

definition demoHost :: host where
  "demoHost =
     \<lparr>openDocument = (\<lambda>u. if u = ''file:///w/gone.ts'' then Inl (ErrorObj ''ENOENT'') else Inr ''x''),
      workspaceRelative = (\<lambda>u. if u = ''file:///w/a.ts'' then Some ''a.ts'' else None),
      basename = (\<lambda>u. if u = ''file:///w/a.ts'' then ''a.ts'' else ''b.ts'')\<rparr>"

definition fileA :: ContextFile where
  "fileA = \<lparr>uri = ''file:///w/a.ts'', name = ''a.ts'', relativePath = ''a.ts'',
            content = Some ''x'', isActive = True\<rparr>"

definition fileB :: ContextFile where
  "fileB = \<lparr>uri = ''file:///w/b.ts'', name = ''b.ts'', relativePath = ''b.ts'',
            content = Some ''y'', isActive = True\<rparr>"

definition demoProvider :: "ContextFile list \<Rightarrow> ContextProvider" where
  "demoProvider files = \<lparr>contextFiles = files, notices = [], refreshes = 0\<rparr>"

text \<open>A path segment that normalisation keeps as it is.\<close>

definition goodSegment :: "string \<Rightarrow> bool" where
  "goodSegment c \<longleftrightarrow> c \<noteq> [] \<and> c \<noteq> ''.'' \<and> c \<noteq> ''..'' \<and> CHR ''/'' \<notin> set c"

text \<open>Which events each phase of an Edit invocation may add to the trace.\<close>

fun stagingEvent :: "event \<Rightarrow> bool" where
  "stagingEvent (Mkdir p) = True"
| "stagingEvent (WriteFile p c) = True"
| "stagingEvent ev = False"

fun attemptEvent :: "event \<Rightarrow> bool" where
  "attemptEvent (Mkdir p) = False"
| "attemptEvent (WriteFile p c) = False"
| "attemptEvent (Rm p) = False"
| "attemptEvent (ConsoleWarn m) = False"
| "attemptEvent ev = True"

definition adds :: "(event \<Rightarrow> bool) \<Rightarrow> world \<Rightarrow> world \<Rightarrow> bool" where
  "adds P w w' \<longleftrightarrow> (\<exists>evs. trace w' = trace w @ evs \<and> (\<forall>ev\<in>set evs. P ev))"

text \<open>
  Concrete surroundings: a disk with an empty \<open>/tmp\<close>, \<open>Date.now() = 7\<close>, and a tool,
  fault table and user answer to choose.
\<close>

definition scenario ::
  "(event \<Rightarrow> thrown option) \<Rightarrow> (string \<Rightarrow> node \<Rightarrow> execResult \<times> node) \<Rightarrow> string option \<Rightarrow> env" where
  "scenario faults run answer =
     \<lparr>cliPath = [], tmpdir = ''/tmp'', dateNow = 7, fault = faults, tool = run,
      userChoice = (\<lambda>m. answer)\<rparr>"

definition noFault :: "event \<Rightarrow> thrown option" where
  "noFault ev = None"

definition rmBusy :: "event \<Rightarrow> thrown option" where
  "rmBusy ev = (if ev = Rm ''/tmp/codeforgex-7'' then Some (ErrorObj ''EBUSY'') else None)"

definition prints :: "string \<Rightarrow> string \<Rightarrow> string \<Rightarrow> node \<Rightarrow> execResult \<times> node" where
  "prints out err command d = (Resolved out err, d)"

definition rejects :: "thrown \<Rightarrow> string \<Rightarrow> node \<Rightarrow> execResult \<times> node" where
  "rejects t command d = (Rejected t, d)"

definition writesSentinel :: "string list \<Rightarrow> string \<Rightarrow> string \<Rightarrow> node \<Rightarrow> execResult \<times> node" where
  "writesSentinel at text command d =
     (Resolved ''done'' [], (case writeAt d at text of None \<Rightarrow> d | Some d' \<Rightarrow> d'))"

definition fileSrcA :: ContextFile where
  "fileSrcA = \<lparr>uri = ''file:///w/src/a.ts'', name = ''a.ts'', relativePath = ''src/a.ts'',
               content = Some ''s'', isActive = True\<rparr>"

definition world0 :: world where
  "world0 =
     \<lparr>disk = Dir [(''tmp'', Dir [])],
      documents = (\<lambda>u. if u = ''file:///w/a.ts'' then Some ''old a''
                        else if u = ''file:///w/src/a.ts'' then Some ''old s''
                        else None),
      trace = []\<rparr>"

text \<open>A file outside every workspace folder, called \<open>src\<close>: its relative path is its base name.\<close>

definition fileSrc :: ContextFile where
  "fileSrc = \<lparr>uri = ''file:///other/src'', name = ''src'', relativePath = ''src'',
              content = Some ''x'', isActive = True\<rparr>"

definition worldZ :: world where
  "worldZ =
     world0\<lparr>disk :=
       Dir [(''tmp'', Dir [(''codeforgex-7'',
              Dir [(''a.ts'', File ''x''),
                   (''src'', Dir [(''a.ts'', File ''s''), (''a.ts.codeforgedit'', File ''Z'')])])])]\<rparr>"

text \<open>
  A write event is a staged copy of one of \<open>files\<close> when it carries that file's non-empty
  content to that file's place under the staging directory.
\<close>

definition stagedCopyOf :: "string \<Rightarrow> ContextFile list \<Rightarrow> event \<Rightarrow> bool" where
  "stagedCopyOf d files ev =
     (case ev of
        WriteFile p c \<Rightarrow>
          (\<exists>g\<in>set files. content g = Some c \<and> c \<noteq> [] \<and> p = pathJoin d (relativePath g))
      | _ \<Rightarrow> True)"

definition mkdirSays :: "string \<Rightarrow> event \<Rightarrow> thrown option" where
  "mkdirSays m ev = (if ev = Mkdir ''/tmp/codeforgex-7'' then Some (ErrorObj m) else None)"

text \<open>
  The amended reading of "apply all", in the specification's words: the un-suffixed path
  is the sentinel path with the sentinel suffix stripped; a sentinel selects the first
  tracked file whose stored relative path is a tail of that path; the selected file's
  document gets the sentinel's content as its whole text; a sentinel that selects no
  file changes nothing. \<open>cleanSentinel\<close> says that the suffix stands at the end of the
  path and nowhere before; \<open>applicable\<close> says that, when the sentinel selects a file, the
  sentinel can be read and the file's document opened.
\<close>

definition stripSentinel :: "string \<Rightarrow> string" where
  "stripSentinel editFile = take (length editFile - length ''.codeforgedit'') editFile"

definition cleanSentinel :: "string \<Rightarrow> bool" where
  "cleanSentinel editFile \<longleftrightarrow>
     suffix ''.codeforgedit'' editFile
     \<and> list_all (\<lambda>n. \<not> prefix ''.codeforgedit'' (drop n editFile))
          [0..<length editFile - length ''.codeforgedit'']"

definition selectedFile :: "ContextFile list \<Rightarrow> string \<Rightarrow> ContextFile option" where
  "selectedFile files editFile =
     find (\<lambda>g. suffix (relativePath g) (stripSentinel editFile)) files"

definition applicable ::
  "env \<Rightarrow> node \<Rightarrow> (uri \<Rightarrow> string option) \<Rightarrow> ContextFile list \<Rightarrow> string \<Rightarrow> bool" where
  "applicable e d docs files editFile =
     (case selectedFile files editFile of
        None \<Rightarrow> True
      | Some f \<Rightarrow>
          fault e (ReadFile editFile) = None
          \<and> (case lookup d (segments editFile) of Some (File z) \<Rightarrow> True | _ \<Rightarrow> False)
          \<and> fault e (OpenTextDocument (uri f)) = None
          \<and> docs (uri f) \<noteq> None)"

fun spec_applyAll ::
  "node \<Rightarrow> ContextFile list \<Rightarrow> string list \<Rightarrow> (uri \<Rightarrow> string option) \<Rightarrow> (uri \<Rightarrow> string option)" where
  "spec_applyAll d files [] docs = docs"
| "spec_applyAll d files (editFile # rest) docs =
     spec_applyAll d files rest
       (case selectedFile files editFile of
          None \<Rightarrow> docs
        | Some f \<Rightarrow>
            (case lookup d (segments editFile) of
               Some (File z) \<Rightarrow> docs(uri f \<mapsto> z)
             | _ \<Rightarrow> docs))"

text \<open>
  A staging tree after the tool has run: sentinels for \<open>b.ts\<close> and \<open>src/a.ts\<close>, and one
  for \<open>notes.md\<close>, which is not tracked.
\<close>

definition worldTwo :: world where
  "worldTwo =
     \<lparr>disk =
        Dir [(''tmp'', Dir [(''codeforgex-7'',
               Dir [(''b.ts'', File ''y''),
                    (''b.ts.codeforgedit'', File ''B2''),
                    (''src'', Dir [(''a.ts'', File ''s''), (''a.ts.codeforgedit'', File ''Z'')]),
                    (''notes.md.codeforgedit'', File ''N'')])])],
      documents = (\<lambda>u. if u = ''file:///w/b.ts'' then Some ''old b''
                        else if u = ''file:///w/src/a.ts'' then Some ''old s''
                        else None),
      trace = []\<rparr>"

section \<open>Mode cycling\<close>

lemma switchMode_step:
  "currentMode (switchMode s) = (case currentMode s of Edit \<Rightarrow> Agent | Agent \<Rightarrow> Ask | Ask \<Rightarrow> Edit)"
  by (cases "currentMode s") (simp_all add: switchMode_def setMode_def modes_def)

text \<open>
  C6. \<open>switchMode\<close> advances the current mode in the declared order Edit, Agent, Ask and
  wraps from Ask to Edit; three applications bring the mode back, and the three modes
  met on the way are pairwise different and are all the modes.
\<close>

theorem C6_switchMode_cycle:
  "currentMode (switchMode s) = (case currentMode s of Edit \<Rightarrow> Agent | Agent \<Rightarrow> Ask | Ask \<Rightarrow> Edit)
   \<and> currentMode (switchMode (switchMode (switchMode s))) = currentMode s
   \<and> distinct [currentMode s, currentMode (switchMode s), currentMode (switchMode (switchMode s))]
   \<and> set [currentMode s, currentMode (switchMode s), currentMode (switchMode (switchMode s))]
       = {Edit, Agent, Ask}"
  by (cases "currentMode s") (auto simp: switchMode_step)

section \<open>Context set\<close>















text \<open>
  C8. After any run of add, remove, toggle and clear operations, from any state,
  \<open>getContextFiles\<close> is the tracked files filtered by their active flag: a subsequence in
  set order that holds a tracked file exactly when its flag is true.
\<close>

theorem C8_activeFiles_after_any_run:
  "getContextFiles (runOps h ops s) = filter isActive (contextFiles (runOps h ops s))
   \<and> subseq (getContextFiles (runOps h ops s)) (contextFiles (runOps h ops s))
   \<and> (\<forall>f \<in> set (contextFiles (runOps h ops s)).
         f \<in> set (getContextFiles (runOps h ops s)) \<longleftrightarrow> isActive f)"
  by (simp add: getContextFiles_def)

theorem C8_activeFiles_after_any_run_witness:
  "getContextFiles (runOps demoHost
      [Add ''file:///w/a.ts'', Add ''file:///w/b.ts'', ToggleActive ''file:///w/a.ts'',
       Add ''file:///w/c.ts'', Remove ''file:///w/c.ts'', ToggleActive ''file:///w/b.ts'',
       ToggleActive ''file:///w/a.ts''] emptyProvider)
   = [fileA]"
  using C8_activeFiles_after_any_run [of demoHost
      "[Add ''file:///w/a.ts'', Add ''file:///w/b.ts'', ToggleActive ''file:///w/a.ts'',
       Add ''file:///w/c.ts'', Remove ''file:///w/c.ts'', ToggleActive ''file:///w/b.ts'',
       ToggleActive ''file:///w/a.ts'']" emptyProvider]
  by (simp add: runOps_def addFile_def addFileStart_def addFileResume_def removeFile_def
        toggleFileActive_def emptyProvider_def demoHost_def showNotice_def refresh_def fileA_def)

section \<open>The content blob\<close>

text \<open>
  C5, as stated, fails: an active file whose cached content is empty gets no block. With
  A holding the empty string, the code returns B's block alone, where the concatenation
  of every active file has A's header too.
\<close>

theorem C5_blob_counterexample:
  "getActiveContextContent (demoProvider [fileA\<lparr>content := Some []\<rparr>, fileB])
     = ''// File: b.ts'' @ [CHR 0x0A] @ ''y''
   \<and> spec_activeContentBlob [fileA\<lparr>content := Some []\<rparr>, fileB]
     = ''// File: a.ts'' @ [CHR 0x0A, CHR 0x0A, CHR 0x0A] @ ''---'' @ [CHR 0x0A, CHR 0x0A]
       @ ''// File: b.ts'' @ [CHR 0x0A] @ ''y''
   \<and> getActiveContextContent (demoProvider [fileA\<lparr>content := Some []\<rparr>, fileB])
     \<noteq> spec_activeContentBlob (getContextFiles (demoProvider [fileA\<lparr>content := Some []\<rparr>, fileB]))"
  by (simp add: getActiveContextContent_def spec_activeContentBlob_def demoProvider_def fileA_def
        fileB_def fileBlock_def blockSeparator_def getContextFiles_def)

text \<open>
  C5, amended. \<open>getActiveContextContent\<close> concatenates each active file that has non-empty
  cached content as a labelled block (header line, then the content), joined by the
  separator, in set order; the service's \<open>_buildContextContent\<close> on the active files is
  the same string; and for two active files with non-empty contents \<open>x\<close> and \<open>y\<close> the
  output is the first block, the separator, the second block. The function reads the
  state only, so repeated calls on an unchanged set return the same string.
\<close>

theorem C5_blob_amended:
  "getActiveContextContent s
     = spec_activeContentBlob (filter (\<lambda>f. truthy (content f)) (contextFiles s))
   \<and> getActiveContextContent s = buildContextContent (getContextFiles s)
   \<and> (x \<noteq> [] \<and> y \<noteq> [] \<and>
       contextFiles s = [\<lparr>uri = ua, name = na, relativePath = pa, content = Some x, isActive = True\<rparr>,
                         \<lparr>uri = ub, name = nb, relativePath = pb, content = Some y, isActive = True\<rparr>]
      \<longrightarrow> getActiveContextContent s
            = ''// File: '' @ pa @ [CHR 0x0A] @ x @ [CHR 0x0A, CHR 0x0A] @ ''---'' @ [CHR 0x0A, CHR 0x0A]
              @ ''// File: '' @ pb @ [CHR 0x0A] @ y)"
  by (auto simp: getActiveContextContent_def spec_activeContentBlob_def buildContextContent_def
        getContextFiles_def fileBlock_def blockSeparator_def conj_commute)

theorem C5_blob_amended_witness:
  "getActiveContextContent (demoProvider [fileA, fileB])
     = ''// File: a.ts'' @ [CHR 0x0A] @ ''x'' @ [CHR 0x0A, CHR 0x0A] @ ''---'' @ [CHR 0x0A, CHR 0x0A]
       @ ''// File: b.ts'' @ [CHR 0x0A] @ ''y''"
  using C5_blob_amended [of "demoProvider [fileA, fileB]" "''x''" "''y''"
          "''file:///w/a.ts''" "''a.ts''" "''a.ts''" "''file:///w/b.ts''" "''b.ts''" "''b.ts''",
          THEN conjunct2, THEN conjunct2]
  by (simp add: demoProvider_def fileA_def fileB_def)

section \<open>Paths and the directory tree\<close>

lemma splitOn_not_Nil: "splitOn s x \<noteq> []"
  by (induction x) (auto split: list.splits)

lemma splitOn_no_sep: "s \<notin> set b \<Longrightarrow> splitOn s b = [b]"
  by (induction b) auto

lemma splitOn_append_sep: "splitOn s (a @ s # b) = splitOn s a @ splitOn s b"
proof (induction a)
  case Nil
  show ?case by simp
next
  case (Cons c a)
  obtain x xs where x: "splitOn s a = x # xs"
    using splitOn_not_Nil[of s a] by (cases "splitOn s a") auto
  show ?case using Cons x by simp
qed

lemma splitOn_elems: "x \<in> set (splitOn s a) \<Longrightarrow> s \<notin> set x"
proof (induction a arbitrary: x)
  case Nil
  then show ?case by simp
next
  case (Cons c a)
  then show ?case
    by (cases "splitOn s a") (auto split: if_splits)
qed

lemma normalize_snoc:
  "normalize (cs @ [c]) =
     (if c = [] \<or> c = ''.'' then normalize cs
      else if c = ''..'' then butlast (normalize cs) else normalize cs @ [c])"
  by (simp add: normalize_def)

lemma normalize_good: "(\<forall>c\<in>set cs. CHR ''/'' \<notin> set c) \<Longrightarrow> \<forall>c\<in>set (normalize cs). goodSegment c"
proof (induction cs rule: rev_induct)
  case Nil
  show ?case by (simp add: normalize_def)
next
  case (snoc c cs)
  then have ih: "\<forall>c\<in>set (normalize cs). goodSegment c" by simp
  from snoc.prems have c: "CHR ''/'' \<notin> set c" by simp
  show ?case using ih c
    by (auto simp: normalize_snoc goodSegment_def dest: in_set_butlastD)
qed

lemma segments_good: "\<forall>c\<in>set (segments p). goodSegment c"
  unfolding segments_def by (rule normalize_good) (auto dest: splitOn_elems)

lemma normalize_Nil: "normalize [] = []"
  by (simp add: normalize_def)

lemma normalize_of_good: "\<forall>c\<in>set cs. goodSegment c \<Longrightarrow> normalize cs = cs"
  by (induction cs rule: rev_induct) (auto simp: normalize_snoc normalize_Nil goodSegment_def)

lemma splitOn_render:
  "cs \<noteq> [] \<Longrightarrow> \<forall>c\<in>set cs. CHR ''/'' \<notin> set c \<Longrightarrow>
   splitOn CHR ''/'' (concat (map (\<lambda>c. CHR ''/'' # c) cs)) = [] # cs"
proof (induction cs)
  case Nil
  then show ?case by simp
next
  case (Cons c cs)
  show ?case
  proof (cases cs)
    case Nil
    with Cons.prems show ?thesis by (simp add: splitOn_no_sep)
  next
    case (Cons d ds)
    with Cons.IH Cons.prems
    have ih: "splitOn CHR ''/'' (concat (map (\<lambda>c. CHR ''/'' # c) cs)) = [] # cs" by simp
    have "concat (map (\<lambda>c. CHR ''/'' # c) cs) = CHR ''/'' # d @ concat (map (\<lambda>c. CHR ''/'' # c) ds)"
      using Cons by simp
    with ih have tl: "splitOn CHR ''/'' (d @ concat (map (\<lambda>c. CHR ''/'' # c) ds)) = cs"
      by simp
    have "splitOn CHR ''/'' (c @ CHR ''/'' # d @ concat (map (\<lambda>c. CHR ''/'' # c) ds))
            = [c] @ cs"
      using Cons.prems tl by (simp add: splitOn_append_sep splitOn_no_sep)
    then show ?thesis using Cons by simp
  qed
qed

lemma segments_render: "\<forall>c\<in>set cs. goodSegment c \<Longrightarrow> segments (render cs) = cs"
proof (cases cs)
  case Nil
  then show ?thesis by (simp add: segments_def render_def normalize_def)
next
  case (Cons c ds)
  assume g: "\<forall>c\<in>set cs. goodSegment c"
  then have "\<forall>c\<in>set cs. CHR ''/'' \<notin> set c" by (simp add: goodSegment_def)
  with Cons have "splitOn CHR ''/'' (render cs) = [] # cs"
    using splitOn_render[of cs] by (simp add: render_def)
  moreover have "normalize ([] # cs) = cs"
    using normalize_of_good[OF g] by (simp add: normalize_def)
  ultimately show ?thesis by (simp add: segments_def)
qed

lemma segments_pathJoin: "segments (pathJoin a b) = segments (a @ ''/'' @ b)"
  unfolding pathJoin_def by (rule segments_render) (rule segments_good)

lemma segments_join_good:
  "goodSegment b \<Longrightarrow> segments (pathJoin a b) = segments a @ [b]"
proof -
  assume g: "goodSegment b"
  then have "splitOn CHR ''/'' (a @ ''/'' @ b) = splitOn CHR ''/'' a @ [b]"
    by (simp add: splitOn_append_sep splitOn_no_sep goodSegment_def)
  then have "segments (a @ ''/'' @ b) = segments a @ [b]"
    using g unfolding segments_def by (simp add: normalize_snoc goodSegment_def)
  then show ?thesis by (simp only: segments_pathJoin)
qed

lemma showNat_digits: "c \<in> set (showNat n) \<Longrightarrow> 48 \<le> (of_char c :: nat) \<and> (of_char c :: nat) \<le> 57"
proof (induction n arbitrary: c rule: showNat.induct)
  case (1 n)
  show ?case
  proof (cases "n < 10")
    case True
    with "1.prems" have "c = char_of (48 + n)" by (simp add: showNat.simps[of n])
    with True show ?thesis by simp
  next
    case False
    with "1.prems" have "c \<in> set (showNat (n div 10)) \<or> c = char_of (48 + n mod 10)"
      by (auto simp: showNat.simps[of n])
    then show ?thesis
    proof
      assume "c \<in> set (showNat (n div 10))"
      with "1.IH" False show ?thesis by simp
    next
      assume "c = char_of (48 + n mod 10)"
      moreover have "n mod 10 < 10" by simp
      ultimately show ?thesis by simp
    qed
  qed
qed

lemma tempName_good: "goodSegment (''codeforgex-'' @ showNat n)"
  using showNat_digits[of "CHR ''/''" n] by (auto simp: goodSegment_def)

lemma segments_tempDirOf: "segments (tempDirOf e) = segments (tmpdir e) @ [''codeforgex-'' @ showNat (dateNow e)]"
  unfolding tempDirOf_def by (rule segments_join_good[OF tempName_good])

lemma map_of_dropEntry: "map_of (dropEntry k es) k = None"
  by (induction es) (auto simp: dropEntry_def)

lemma map_of_putEntry: "map_of (putEntry k v es) k = Some v"
  by (induction es) auto

lemma lookup_rmAt: "ps \<noteq> [] \<Longrightarrow> lookup (rmAt n ps) ps = None"
  by (induction n ps rule: rmAt.induct)
     (auto simp: map_of_dropEntry map_of_putEntry split: option.splits)

section \<open>What each phase adds to the trace\<close>

lemma adds_refl: "adds P w w"
  by (simp add: adds_def)

lemma adds_trans: "adds P w w1 \<Longrightarrow> adds P w1 w2 \<Longrightarrow> adds P w w2"
  by (auto simp: adds_def)

lemma adds_emit: "P ev \<Longrightarrow> adds P w (emit ev w)"
  by (simp add: adds_def emit_def)

lemma adds_disk: "adds P w w1 \<Longrightarrow> adds P w (w1\<lparr>disk := d\<rparr>)"
  by (simp add: adds_def)

lemma adds_count:
  "adds P w w' \<Longrightarrow> \<not> P x \<Longrightarrow> count_list (trace w') x = count_list (trace w) x"
  by (auto simp: adds_def)

lemma adds_weaken: "adds P w w' \<Longrightarrow> (\<And>ev. P ev \<Longrightarrow> Q ev) \<Longrightarrow> adds Q w w'"
  by (auto simp: adds_def)

lemma mkdir_adds: "P (Mkdir p) \<Longrightarrow> adds P w (snd (mkdir e p w))"
  by (auto simp: mkdir_def Let_def split: option.splits intro: adds_emit adds_disk)

lemma writeFile_adds: "P (WriteFile p c) \<Longrightarrow> adds P w (snd (writeFile e p c w))"
  by (auto simp: writeFile_def Let_def split: option.splits intro: adds_emit adds_disk)

lemma readFile_adds: "P (ReadFile p) \<Longrightarrow> adds P w (snd (readFile e p w))"
  by (auto simp: readFile_def Let_def split: option.splits node.splits intro: adds_emit)

lemma openTextDocument_adds: "P (OpenTextDocument u) \<Longrightarrow> adds P w (snd (openTextDocument e u w))"
  by (auto simp: openTextDocument_def Let_def split: option.splits intro: adds_emit)

lemma applyEdit_adds: "P (ApplyEdit u t) \<Longrightarrow> adds P w (applyEdit u t w)"
  by (simp add: applyEdit_def adds_def emit_def)

lemma stageFiles_adds: "adds stagingEvent w (snd (stageFiles e d files w))"
proof (induction files arbitrary: w)
  case Nil
  show ?case by (simp add: adds_refl)
next
  case (Cons f files)
  show ?case
  proof (cases "truthy (content f)")
    case False
    then show ?thesis using Cons.IH[of w] by (cases "content f") auto
  next
    case True
    then obtain cnt where t: "content f = Some cnt" "cnt \<noteq> []"
      by (cases "content f") auto
    let ?p = "pathJoin d (relativePath f)"
    obtain r1 w1 where m: "mkdir e (pathDirname ?p) w = (r1, w1)" by force
    have a1: "adds stagingEvent w w1"
      using mkdir_adds[of stagingEvent "pathDirname ?p" w e] m by simp
    show ?thesis
    proof (cases r1)
      case (Inl err)
      then show ?thesis using t m a1 by simp
    next
      case (Inr u)
      obtain r2 w2 where wr: "writeFile e ?p cnt w1 = (r2, w2)" by force
      have a2: "adds stagingEvent w1 w2"
        using writeFile_adds[of stagingEvent ?p cnt w1 e] wr by simp
      show ?thesis
      proof (cases r2)
        case (Inl err)
        then show ?thesis using t m Inr wr adds_trans[OF a1 a2] by simp
      next
        case (Inr u')
        then show ?thesis
          using t m \<open>r1 = Inr u\<close> wr adds_trans[OF adds_trans[OF a1 a2] Cons.IH[of w2]] by simp
      qed
    qed
  qed
qed

lemma createTempContext_adds: "adds stagingEvent w (snd (createTempContext e files w))"
proof -
  obtain r1 w1 where m: "mkdir e (tempDirOf e) w = (r1, w1)" by force
  have a1: "adds stagingEvent w w1"
    using mkdir_adds[of stagingEvent "tempDirOf e" w e] m by simp
  have a2: "adds stagingEvent w1 (snd (stageFiles e (tempDirOf e) files w1))"
    by (rule stageFiles_adds)
  show ?thesis
    using m a1 adds_trans[OF a1 a2]
    by (auto simp: createTempContext_def Let_def split: sum.splits prod.splits)
qed

lemma executeCommand_adds: "adds attemptEvent w (snd (executeCommand e args w))"
  by (auto simp: executeCommand_def Let_def adds_def emit_def
           split: sum.splits thrown.splits execResult.splits)

lemma traverse_adds:
  "adds attemptEvent w (snd (traverse e cur n acc w))"
  "adds attemptEvent w (snd (traverseEntries e cur es acc w))"
proof (induction e cur n acc w and e cur es acc w rule: traverse_traverseEntries.induct)
  case (1 e currentDir c editFiles w)
  show ?case by (simp add: adds_emit)
next
  case (2 e currentDir entries editFiles w)
  show ?case
  proof (cases "fault e (Readdir currentDir)")
    case None
    have "adds attemptEvent w (emit (Readdir currentDir) w)" by (simp add: adds_emit)
    from adds_trans[OF this "2.IH"[OF None]] show ?thesis using None by simp
  next
    case (Some t)
    then show ?thesis by (simp add: adds_emit)
  qed
next
  case (3 e currentDir editFiles w)
  show ?case by (simp add: adds_refl)
next
  case (4 e currentDir entryName c rest editFiles w)
  then show ?case by simp
next
  case (5 e currentDir entryName sub rest editFiles w)
  obtain r1 w1 where t: "traverse e (pathJoin currentDir entryName) (Dir sub) editFiles w = (r1, w1)"
    by force
  have a1: "adds attemptEvent w w1" using "5.IH"(1) t by simp
  show ?case
  proof (cases r1)
    case (Inl err)
    then show ?thesis using t a1 by simp
  next
    case (Inr found)
    have "adds attemptEvent w1 (snd (traverseEntries e currentDir rest found w1))"
      using "5.IH"(2) t Inr by auto
    from adds_trans[OF a1 this] show ?thesis using t Inr by simp
  qed
qed

lemma findEditFiles_adds: "adds attemptEvent w (snd (findEditFiles e dir w))"
  by (auto simp: findEditFiles_def traverse_adds adds_emit split: option.splits)

lemma applyOneEdit_adds: "adds attemptEvent w (snd (applyOneEdit e editFile files w))"
proof (cases "find (\<lambda>f. endsWith (replaceFirst ''.codeforgedit'' [] editFile) (relativePath f)) files")
  case None
  then show ?thesis by (simp add: applyOneEdit_def adds_refl)
next
  case (Some f)
  obtain r1 w1 where rd: "readFile e editFile w = (r1, w1)" by force
  have a1: "adds attemptEvent w w1"
    using readFile_adds[of attemptEvent editFile w e] rd by simp
  obtain r2 w2 where op: "openTextDocument e (uri f) w1 = (r2, w2)" by force
  have a2: "adds attemptEvent w1 w2"
    using openTextDocument_adds[of attemptEvent "uri f" w1 e] op by simp
  have a3: "\<And>z. adds attemptEvent w2 (applyEdit (uri f) z w2)"
    by (simp add: applyEdit_adds)
  show ?thesis
    using Some rd op a1 adds_trans[OF a1 a2] adds_trans[OF adds_trans[OF a1 a2] a3]
    by (auto simp: applyOneEdit_def split: sum.splits)
qed

lemma applyEditsLoop_adds: "adds attemptEvent w (snd (applyEditsLoop e editFiles files w))"
proof (induction editFiles arbitrary: w)
  case Nil
  show ?case by (simp add: adds_refl)
next
  case (Cons editFile rest)
  obtain r1 w1 where s: "applyOneEdit e editFile files w = (r1, w1)" by force
  have a1: "adds attemptEvent w w1" using applyOneEdit_adds[of w e editFile files] s by simp
  show ?case using s a1 adds_trans[OF a1 Cons.IH[of w1]] by (cases r1) auto
qed

lemma applyAllEdits_adds: "adds attemptEvent w (snd (applyAllEdits e editFiles files w))"
proof -
  obtain r1 w1 where s: "applyEditsLoop e editFiles files w = (r1, w1)" by force
  have a1: "adds attemptEvent w w1" using applyEditsLoop_adds[of w e editFiles files] s by simp
  have "adds attemptEvent w1 (emit (ShowInformationMessage ''All edits applied successfully!'') w1)"
    by (simp add: adds_emit)
  from adds_trans[OF a1 this] show ?thesis using s a1 by (cases r1) (auto simp: applyAllEdits_def)
qed

lemma handleEditResults_adds: "adds attemptEvent w (snd (handleEditResults e d files w))"
proof -
  obtain r1 w1 where s: "findEditFiles e d w = (r1, w1)" by force
  have a1: "adds attemptEvent w w1" using findEditFiles_adds[of w e d] s by simp
  show ?thesis
  proof (cases r1)
    case (Inl err)
    then show ?thesis using s a1 by (simp add: handleEditResults_def)
  next
    case (Inr editFiles)
    let ?w2 = "emit (ShowInformationMessage (foundMessage editFiles)) w1"
    have a2: "adds attemptEvent w ?w2" using adds_trans[OF a1] by (simp add: adds_emit)
    have a3: "adds attemptEvent w (snd (applyAllEdits e editFiles files ?w2))"
      using adds_trans[OF a2 applyAllEdits_adds] .
    have a4: "adds attemptEvent w (snd (reviewEdits e editFiles files ?w2))"
      using adds_trans[OF a2] by (simp add: reviewEdits_def adds_emit)
    show ?thesis using s Inr a1 a2 a3 a4 by (simp add: handleEditResults_def Let_def)
  qed
qed

lemma editAttempt_adds: "adds attemptEvent w (snd (editAttempt e request d files w))"
proof -
  obtain r1 w1 where s: "executeCommand e [''edit'', d, ''--user_prompt'', quoted request] w = (r1, w1)"
    by force
  have a1: "adds attemptEvent w w1"
    using executeCommand_adds[of w e "[''edit'', d, ''--user_prompt'', quoted request]"] s by simp
  have a2: "adds attemptEvent w (snd (handleEditResults e d files w1))"
    using adds_trans[OF a1 handleEditResults_adds] .
  show ?thesis using s a1 a2 by (cases r1) (auto simp: editAttempt_def split: sum.splits prod.splits)
qed

section \<open>The gateway\<close>

text \<open>
  C3. A call whose process exits with success, prints on stderr and prints nothing on
  stdout fails, and the error carries the stderr text; with anything on stdout the call
  returns stdout whatever stderr holds; with nothing on stdout and no error condition met
  the result is stderr if there is any, else the generic success string (stderr is then
  empty, so it is the generic string); a rejected execution (non-zero exit, spawn error,
  timeout) fails with an error whose message wraps the underlying message.
\<close>

theorem C3_gateway_classification:
  "(fst (tool e (commandLine e args) (disk w)) = Resolved out err \<longrightarrow>
      fst (executeCommand e args w) =
        (if err \<noteq> [] \<and> out = [] then Inl (ErrorObj (''CodeForgeAI CLI error: '' @ err))
         else Inr (if out \<noteq> [] then out
                   else if err \<noteq> [] then err
                   else ''Command executed successfully'')))
   \<and> (fst (tool e (commandLine e args) (disk w)) = Resolved out err \<and> out \<noteq> [] \<longrightarrow>
        fst (executeCommand e args w) = Inr out)
   \<and> (fst (tool e (commandLine e args) (disk w)) = Resolved [] [] \<longrightarrow>
        fst (executeCommand e args w) = Inr ''Command executed successfully'')
   \<and> (fst (tool e (commandLine e args) (disk w)) = Rejected (ErrorObj m) \<longrightarrow>
        fst (executeCommand e args w) = Inl (ErrorObj (''CodeForgeAI CLI error: '' @ m)))"
  by (simp add: executeCommand_def Let_def emit_def)

theorem C3_gateway_classification_witness:
  "fst (executeCommand (scenario noFault (prints [] ''warning: deprecated'') None) [''--version''] world0)
     = Inl (ErrorObj ''CodeForgeAI CLI error: warning: deprecated'')
   \<and> fst (executeCommand (scenario noFault (prints ''ok'' ''noise'') None) [''--version''] world0)
     = Inr ''ok''
   \<and> fst (executeCommand (scenario noFault (prints [] []) None) [''--version''] world0)
     = Inr ''Command executed successfully''
   \<and> fst (executeCommand (scenario noFault (rejects (ErrorObj ''Command failed: exit 1'')) None)
            [''--version''] world0)
     = Inl (ErrorObj ''CodeForgeAI CLI error: Command failed: exit 1'')"
  using C3_gateway_classification
          [of "scenario noFault (prints [] ''warning: deprecated'') None" "[''--version'']" world0
              "[]" "''warning: deprecated''" "[]"]
        C3_gateway_classification
          [of "scenario noFault (prints ''ok'' ''noise'') None" "[''--version'']" world0
              "''ok''" "''noise''" "[]"]
        C3_gateway_classification
          [of "scenario noFault (prints [] []) None" "[''--version'']" world0 "[]" "[]" "[]"]
        C3_gateway_classification
          [of "scenario noFault (rejects (ErrorObj ''Command failed: exit 1'')) None"
              "[''--version'']" world0 "[]" "[]" "''Command failed: exit 1''"]
  by (simp add: scenario_def prints_def rejects_def)

section \<open>The Edit pipeline\<close>

text \<open>
  C4, as stated, fails on the kind of error: what is thrown is a plain \<open>Error\<close>, the only
  kind the service constructs, told apart by nothing but its message. It is the same
  value as, for instance, the error of a non-empty context whose staging \<open>mkdir\<close> is
  rejected with that text.
\<close>

theorem C4_untyped_error_counterexample:
  "fst (processEdit (scenario noFault (prints ''done'' []) None) ''fix'' [] world0)
     = Inl (ErrorObj ''No files in context for editing. Please add files to context first.'')
   \<and> fst (processEdit
            (scenario (mkdirSays ''No files in context for editing. Please add files to context first.'')
               (prints ''done'' []) None) ''fix'' [fileA] world0)
     = fst (processEdit (scenario noFault (prints ''done'' []) None) ''fix'' [] world0)"
  by code_simp

text \<open>
  C4, amended. With no active file, \<open>processEdit\<close> fails with a plain \<open>Error\<close> whose
  message is "No files in context for editing. Please add files to context first." and
  leaves the world as it was: no directory is made, no file read or written, the tool is
  not run, nothing is added to the trace. The list it is given is \<open>getContextFiles\<close>, the
  active files.
\<close>

theorem C4_empty_context_fails_before_io:
  "processEdit e request [] w
     = (Inl (ErrorObj ''No files in context for editing. Please add files to context first.''), w)
   \<and> ((\<forall>f\<in>set (contextFiles s). \<not> isActive f) \<longrightarrow>
        processEdit e request (getContextFiles s) w
          = (Inl (ErrorObj ''No files in context for editing. Please add files to context first.''), w))"
proof -
  have "(\<forall>f\<in>set (contextFiles s). \<not> isActive f) \<Longrightarrow> getContextFiles s = []"
    by (simp add: getContextFiles_def)
  then show ?thesis by (auto simp: processEdit_def noFilesMessage_def)
qed

theorem C4_empty_context_fails_before_io_witness:
  "processEdit (scenario noFault (prints ''done'' []) None) ''fix''
      (getContextFiles (demoProvider [fileA\<lparr>isActive := False\<rparr>])) world0
     = (Inl (ErrorObj ''No files in context for editing. Please add files to context first.''), world0)"
  using C4_empty_context_fails_before_io
          [of "scenario noFault (prints ''done'' []) None" "''fix''" world0
              "demoProvider [fileA\<lparr>isActive := False\<rparr>]"]
  by (simp add: demoProvider_def fileA_def)

lemma createTempContext_dir: "fst (createTempContext e files w) = Inr d \<Longrightarrow> d = tempDirOf e"
  by (auto simp: createTempContext_def Let_def split: prod.splits sum.splits)

lemma segments_tempDirOf_not_Nil: "segments (tempDirOf e) \<noteq> []"
  by (simp add: segments_tempDirOf)

lemma cleanupTempDir_result: "fst (cleanupTempDir e d w) = Inr ()"
  by (auto simp: cleanupTempDir_def split: prod.splits sum.splits)

lemma cleanupTempDir_trace:
  "trace (snd (cleanupTempDir e (tempDirOf e) w)) =
     trace w @ [Rm (tempDirOf e)] @
       (if fault e (Rm (tempDirOf e)) = None then []
        else [ConsoleWarn (''Failed to cleanup temp directory: '' @ tempDirOf e)])"
  by (auto simp: cleanupTempDir_def rm_def Let_def emit_def segments_tempDirOf_not_Nil
           split: option.splits)

lemma cleanupTempDir_disk:
  "fault e (Rm (tempDirOf e)) = None \<Longrightarrow>
   disk (snd (cleanupTempDir e (tempDirOf e) w)) = rmAt (disk w) (segments (tempDirOf e))"
  by (simp add: cleanupTempDir_def rm_def Let_def emit_def segments_tempDirOf_not_Nil)

lemma tryFinally_cleanup:
  "tryFinally body (cleanupTempDir e d) w =
     (fst (body w), snd (cleanupTempDir e d (snd (body w))))"
  using cleanupTempDir_result[of e d "snd (body w)"]
  by (auto simp: tryFinally_def split: prod.splits sum.splits)

lemma processEdit_staged:
  assumes "files \<noteq> []" and "fst (createTempContext e files w) = Inr d"
  shows "processEdit e request files w =
           (fst (editAttempt e request d files (snd (createTempContext e files w))),
            snd (cleanupTempDir e d (snd (editAttempt e request d files (snd (createTempContext e files w))))))"
  using assms by (auto simp: processEdit_def tryFinally_cleanup split: prod.splits sum.splits)

text \<open>
  C1, as stated, fails in two ways. When the removal itself is rejected (here with
  EBUSY), the invocation still succeeds and the staging directory is still on disk at
  its end. When staging fails after the directory was made (here the copy \<open>src\<close> of one
  file stands where the directory \<open>src\<close> of the next is needed), the invocation fails
  before the \<open>try\<close> block is entered: no removal is attempted and the directory stays.
\<close>

theorem C1_cleanup_counterexample:
  "fst (processEdit (scenario rmBusy (prints ''done'' []) None) ''fix'' [fileA] world0) = Inr ''done''
   \<and> lookup (disk (snd (processEdit (scenario rmBusy (prints ''done'' []) None) ''fix'' [fileA] world0)))
        (segments ''/tmp/codeforgex-7'') = Some (Dir [(''a.ts'', File ''x'')])
   \<and> fst (processEdit (scenario noFault (prints ''done'' []) None) ''fix'' [fileSrc, fileSrcA] world0)
        = Inl (ErrorObj ''EEXIST'')
   \<and> lookup (disk (snd (processEdit (scenario noFault (prints ''done'' []) None) ''fix''
                              [fileSrc, fileSrcA] world0)))
        (segments ''/tmp/codeforgex-7'') = Some (Dir [(''src'', File ''x'')])
   \<and> trace (snd (processEdit (scenario noFault (prints ''done'' []) None) ''fix''
                              [fileSrc, fileSrcA] world0))
        = [Mkdir ''/tmp/codeforgex-7'', Mkdir ''/tmp/codeforgex-7'',
           WriteFile ''/tmp/codeforgex-7/src'' ''x'', Mkdir ''/tmp/codeforgex-7/src'']"
  by code_simp

text \<open>
  C1, amended. For every Edit invocation whose staging step has returned the staging
  directory, whatever the tool call and the reconciliation do (success, failure, the
  user cancelling): the result or error of the invocation is that of the attempt; the
  removal of the staging directory is requested exactly once; it is the last operation,
  followed only by the warning that is logged when it is rejected; and when it is not
  rejected the directory no longer exists at the end.
\<close>

theorem C1_cleanup_once_after_staging:
  assumes "contextFiles' \<noteq> []"
      and "fst (createTempContext e contextFiles' w) = Inr tempDir"
  shows "fst (processEdit e request contextFiles' w)
           = fst (editAttempt e request tempDir contextFiles' (snd (createTempContext e contextFiles' w)))
       \<and> count_list (trace (snd (processEdit e request contextFiles' w))) (Rm tempDir)
           = count_list (trace w) (Rm tempDir) + 1
       \<and> (\<exists>before. trace (snd (processEdit e request contextFiles' w)) =
             before @ [Rm tempDir] @
               (if fault e (Rm tempDir) = None then []
                else [ConsoleWarn (''Failed to cleanup temp directory: '' @ tempDir)]))
       \<and> (fault e (Rm tempDir) = None \<longrightarrow>
             lookup (disk (snd (processEdit e request contextFiles' w))) (segments tempDir) = None)"
proof -
  let ?w1 = "snd (createTempContext e contextFiles' w)"
  let ?w2 = "snd (editAttempt e request tempDir contextFiles' ?w1)"
  have d: "tempDir = tempDirOf e" using assms(2) by (rule createTempContext_dir)
  have pe: "processEdit e request contextFiles' w =
              (fst (editAttempt e request tempDir contextFiles' ?w1), snd (cleanupTempDir e tempDir ?w2))"
    using assms by (rule processEdit_staged)
  have c1: "count_list (trace ?w1) (Rm tempDir) = count_list (trace w) (Rm tempDir)"
    by (rule adds_count[OF createTempContext_adds]) simp
  have c2: "count_list (trace ?w2) (Rm tempDir) = count_list (trace ?w1) (Rm tempDir)"
    by (rule adds_count[OF editAttempt_adds]) simp
  have tr: "trace (snd (cleanupTempDir e tempDir ?w2)) =
              trace ?w2 @ [Rm tempDir] @
                (if fault e (Rm tempDir) = None then []
                 else [ConsoleWarn (''Failed to cleanup temp directory: '' @ tempDir)])"
    unfolding d by (rule cleanupTempDir_trace)
  have "fst (processEdit e request contextFiles' w)
          = fst (editAttempt e request tempDir contextFiles' ?w1)"
    using pe by simp
  moreover have "count_list (trace (snd (processEdit e request contextFiles' w))) (Rm tempDir)
          = count_list (trace w) (Rm tempDir) + 1"
    using pe tr c1 c2 by simp
  moreover have "\<exists>before. trace (snd (processEdit e request contextFiles' w)) =
             before @ [Rm tempDir] @
               (if fault e (Rm tempDir) = None then []
                else [ConsoleWarn (''Failed to cleanup temp directory: '' @ tempDir)])"
    using pe tr by auto
  moreover have "fault e (Rm tempDir) = None \<longrightarrow>
             lookup (disk (snd (processEdit e request contextFiles' w))) (segments tempDir) = None"
    using pe cleanupTempDir_disk[of e ?w2] lookup_rmAt[OF segments_tempDirOf_not_Nil, of "disk ?w2" e]
    unfolding d by simp
  ultimately show ?thesis by blast
qed

theorem C1_cleanup_once_after_staging_witness:
  "[fileA, fileSrcA] \<noteq> []
   \<and> fst (createTempContext (scenario noFault (rejects (ErrorObj ''Command failed: exit 1'')) None)
            [fileA, fileSrcA] world0) = Inr ''/tmp/codeforgex-7''
   \<and> fst (processEdit (scenario noFault (rejects (ErrorObj ''Command failed: exit 1'')) None)
            ''fix'' [fileA, fileSrcA] world0)
       = Inl (ErrorObj ''CodeForgeAI CLI error: Command failed: exit 1'')
   \<and> count_list (trace (snd (processEdit (scenario noFault (rejects (ErrorObj ''Command failed: exit 1'')) None)
            ''fix'' [fileA, fileSrcA] world0))) (Rm ''/tmp/codeforgex-7'') = 1
   \<and> lookup (disk (snd (processEdit (scenario noFault (rejects (ErrorObj ''Command failed: exit 1'')) None)
            ''fix'' [fileA, fileSrcA] world0))) (segments ''/tmp/codeforgex-7'') = None"
proof -
  let ?e = "scenario noFault (rejects (ErrorObj ''Command failed: exit 1'')) None"
  have h1: "[fileA, fileSrcA] \<noteq> []" by simp
  have h2: "fst (createTempContext ?e [fileA, fileSrcA] world0) = Inr ''/tmp/codeforgex-7''"
    by code_simp
  have h3: "fst (editAttempt ?e ''fix'' ''/tmp/codeforgex-7'' [fileA, fileSrcA]
                  (snd (createTempContext ?e [fileA, fileSrcA] world0)))
              = Inl (ErrorObj ''CodeForgeAI CLI error: Command failed: exit 1'')"
    by code_simp
  have h4: "count_list (trace world0) (Rm ''/tmp/codeforgex-7'') = 0"
    by (simp add: world0_def)
  have h5: "fault ?e (Rm ''/tmp/codeforgex-7'') = None"
    by (simp add: scenario_def noFault_def)
  show ?thesis
    using C1_cleanup_once_after_staging[OF h1 h2, of "''fix''"] h1 h2 h3 h4 h5 by simp
qed

lemma stagedCopyOf_mono: "set files \<subseteq> set files' \<Longrightarrow> stagedCopyOf d files ev \<Longrightarrow> stagedCopyOf d files' ev"
  by (cases ev) (auto simp: stagedCopyOf_def)

lemma stageFiles_copies: "adds (stagedCopyOf d files) w (snd (stageFiles e d files w))"
proof (induction files arbitrary: w)
  case Nil
  show ?case by (simp add: adds_refl)
next
  case (Cons f files)
  have ih: "\<And>w. adds (stagedCopyOf d (f # files)) w (snd (stageFiles e d files w))"
    by (rule adds_weaken[OF Cons.IH]) (auto intro: stagedCopyOf_mono[of files])
  show ?case
  proof (cases "truthy (content f)")
    case False
    then show ?thesis using ih[of w] by (cases "content f") auto
  next
    case True
    then obtain cnt where t: "content f = Some cnt" "cnt \<noteq> []"
      by (cases "content f") auto
    let ?p = "pathJoin d (relativePath f)"
    let ?P = "stagedCopyOf d (f # files)"
    obtain r1 w1 where m: "mkdir e (pathDirname ?p) w = (r1, w1)" by force
    have a1: "adds ?P w w1"
      using mkdir_adds[of ?P "pathDirname ?p" w e] m by (simp add: stagedCopyOf_def)
    obtain r2 w2 where wr: "writeFile e ?p cnt w1 = (r2, w2)" by force
    have a2: "adds ?P w1 w2"
      using writeFile_adds[of ?P ?p cnt w1 e] wr t by (simp add: stagedCopyOf_def)
    show ?thesis
      using t m wr a1 adds_trans[OF a1 a2] adds_trans[OF adds_trans[OF a1 a2] ih[of w2]]
      by (cases r1; cases r2) auto
  qed
qed

lemma stageFiles_skip:
  "\<not> truthy (content f) \<Longrightarrow> stageFiles e d (xs @ f # ys) w = stageFiles e d (xs @ ys) w"
proof (induction xs arbitrary: w)
  case Nil
  then show ?case by (cases "content f") auto
next
  case (Cons x xs)
  then show ?case by (auto simp: Let_def split: option.splits prod.splits sum.splits)
qed

lemma createTempContext_skip:
  "\<not> truthy (content f) \<Longrightarrow> createTempContext e (xs @ f # ys) w = createTempContext e (xs @ ys) w"
  by (auto simp: createTempContext_def stageFiles_skip Let_def split: prod.splits sum.splits)

lemma createTempContext_copies:
  "adds (stagedCopyOf (tempDirOf e) files) w (snd (createTempContext e files w))"
proof -
  let ?P = "stagedCopyOf (tempDirOf e) files"
  obtain r1 w1 where m: "mkdir e (tempDirOf e) w = (r1, w1)" by force
  have a1: "adds ?P w w1"
    using mkdir_adds[of ?P "tempDirOf e" w e] m by (simp add: stagedCopyOf_def)
  have a2: "adds ?P w1 (snd (stageFiles e (tempDirOf e) files w1))"
    by (rule stageFiles_copies)
  show ?thesis
    using m a1 adds_trans[OF a1 a2]
    by (auto simp: createTempContext_def Let_def split: sum.splits prod.splits)
qed

lemma cleanupTempDir_adds:
  "P (Rm d) \<Longrightarrow> P (ConsoleWarn (''Failed to cleanup temp directory: '' @ d)) \<Longrightarrow>
   adds P w (snd (cleanupTempDir e d w))"
  by (auto simp: cleanupTempDir_def rm_def Let_def adds_def emit_def split: option.splits)

lemma processEdit_copies:
  "adds (stagedCopyOf (tempDirOf e) files) w (snd (processEdit e request files w))"
proof (cases "files = []")
  case True
  then show ?thesis by (simp add: processEdit_def adds_refl)
next
  case False
  let ?P = "stagedCopyOf (tempDirOf e) files"
  let ?w1 = "snd (createTempContext e files w)"
  have a1: "adds ?P w ?w1" by (rule createTempContext_copies)
  show ?thesis
  proof (cases "fst (createTempContext e files w)")
    case (Inl err)
    then show ?thesis using False a1
      by (auto simp: processEdit_def split: prod.splits sum.splits)
  next
    case (Inr d)
    then have d: "d = tempDirOf e" by (rule createTempContext_dir)
    let ?w2 = "snd (editAttempt e request d files ?w1)"
    have a2: "adds ?P ?w1 ?w2"
      by (rule adds_weaken[OF editAttempt_adds]) (case_tac ev; simp add: stagedCopyOf_def)
    have a3: "adds ?P ?w2 (snd (cleanupTempDir e d ?w2))"
      by (rule cleanupTempDir_adds) (simp_all add: stagedCopyOf_def)
    show ?thesis
      using processEdit_staged[OF False Inr, of request] adds_trans[OF adds_trans[OF a1 a2] a3]
      by simp
  qed
qed

lemma mkdir_trace: "trace (snd (mkdir e p w)) = trace w @ [Mkdir p]"
  by (auto simp: mkdir_def Let_def emit_def split: option.splits)

lemma processEdit_starts_staging:
  assumes "files \<noteq> []"
  shows "\<exists>evs. trace (snd (processEdit e request files w)) = trace w @ Mkdir (tempDirOf e) # evs"
proof -
  let ?w0 = "snd (mkdir e (tempDirOf e) w)"
  let ?w1 = "snd (createTempContext e files w)"
  let ?T = "\<lambda>ev::event. True"
  have s0: "adds ?T ?w0 ?w1"
    using stageFiles_adds[of ?w0 e "tempDirOf e" files]
    by (auto simp: createTempContext_def Let_def adds_refl split: sum.splits prod.splits
             intro: adds_weaken)
  have "adds ?T ?w0 (snd (processEdit e request files w))"
  proof (cases "fst (createTempContext e files w)")
    case (Inl err)
    then show ?thesis using assms s0
      by (auto simp: processEdit_def split: prod.splits sum.splits)
  next
    case (Inr d)
    let ?w2 = "snd (editAttempt e request d files ?w1)"
    have a2: "adds ?T ?w1 ?w2" by (rule adds_weaken[OF editAttempt_adds]) simp
    have a3: "adds ?T ?w2 (snd (cleanupTempDir e d ?w2))" by (rule cleanupTempDir_adds) simp_all
    show ?thesis
      using processEdit_staged[OF assms Inr, of request] adds_trans[OF adds_trans[OF s0 a2] a3]
      by simp
  qed
  then show ?thesis by (auto simp: adds_def mkdir_trace)
qed

text \<open>
  C10. A tracked file whose cached content is empty or absent contributes nothing: the
  content blob is the one without it, and staging with it is staging without it (the
  same operations, the same disk, the same result), so that every write of an Edit
  invocation carries the non-empty content of one of the other files. Yet the file
  counts for the emptiness check: a list that holds it is not empty, and the invocation
  goes on to make the staging directory.
\<close>

theorem C10_falsy_content_is_skipped:
  assumes "\<not> truthy (content f)"
  shows "getActiveContextContent (s\<lparr>contextFiles := xs @ f # ys\<rparr>)
           = getActiveContextContent (s\<lparr>contextFiles := xs @ ys\<rparr>)
       \<and> buildContextContent (xs @ f # ys) = buildContextContent (xs @ ys)
       \<and> createTempContext e (xs @ f # ys) w = createTempContext e (xs @ ys) w
       \<and> adds (stagedCopyOf (tempDirOf e) (xs @ ys)) w (snd (processEdit e request (xs @ f # ys) w))
       \<and> (\<exists>evs. trace (snd (processEdit e request (xs @ f # ys) w))
                  = trace w @ Mkdir (tempDirOf e) # evs)"
proof -
  have "stagedCopyOf (tempDirOf e) (xs @ f # ys) ev \<Longrightarrow> stagedCopyOf (tempDirOf e) (xs @ ys) ev" for ev
    using assms by (cases ev; cases "content f") (auto simp: stagedCopyOf_def)
  then have "adds (stagedCopyOf (tempDirOf e) (xs @ ys)) w (snd (processEdit e request (xs @ f # ys) w))"
    by (rule adds_weaken[OF processEdit_copies])
  moreover have "\<exists>evs. trace (snd (processEdit e request (xs @ f # ys) w))
                  = trace w @ Mkdir (tempDirOf e) # evs"
    by (rule processEdit_starts_staging) simp
  ultimately show ?thesis
    using assms
    by (simp add: getActiveContextContent_def buildContextContent_def createTempContext_skip)
qed

theorem C10_falsy_content_is_skipped_witness:
  "\<not> truthy (content (fileB\<lparr>content := Some []\<rparr>))
   \<and> getActiveContextContent (demoProvider [fileA, fileB\<lparr>content := Some []\<rparr>])
       = ''// File: a.ts'' @ [CHR 0x0A] @ ''x''
   \<and> trace (snd (createTempContext (scenario noFault (prints ''done'' []) None)
                   [fileA, fileB\<lparr>content := Some []\<rparr>] world0))
       = [Mkdir ''/tmp/codeforgex-7'', Mkdir ''/tmp/codeforgex-7'', WriteFile ''/tmp/codeforgex-7/a.ts'' ''x'']
   \<and> trace (snd (processEdit (scenario noFault (prints ''done'' []) None) ''fix''
                   [fileB\<lparr>content := Some []\<rparr>] world0))
       = [Mkdir ''/tmp/codeforgex-7'', Exec (''codeforgeai edit /tmp/codeforgex-7 --user_prompt '' @ quoted ''fix''),
          Readdir ''/tmp/codeforgex-7'', Rm ''/tmp/codeforgex-7'']"
proof -
  let ?e = "scenario noFault (prints ''done'' []) None"
  let ?f = "fileB\<lparr>content := Some []\<rparr>"
  have h: "\<not> truthy (content ?f)" by simp
  have b: "getActiveContextContent (demoProvider [fileA]) = ''// File: a.ts'' @ [CHR 0x0A] @ ''x''"
    by code_simp
  have c: "trace (snd (createTempContext ?e [fileA] world0))
       = [Mkdir ''/tmp/codeforgex-7'', Mkdir ''/tmp/codeforgex-7'', WriteFile ''/tmp/codeforgex-7/a.ts'' ''x'']"
    by code_simp
  have p: "trace (snd (processEdit ?e ''fix'' [?f] world0))
       = [Mkdir ''/tmp/codeforgex-7'', Exec (''codeforgeai edit /tmp/codeforgex-7 --user_prompt '' @ quoted ''fix''),
          Readdir ''/tmp/codeforgex-7'', Rm ''/tmp/codeforgex-7'']"
    by code_simp
  show ?thesis
    using C10_falsy_content_is_skipped[OF h, where s = "demoProvider [fileA, fileB]" and xs = "[fileA]"
            and ys = "[]" and e = ?e and w = world0 and request = "''fix''"]
      h b c p
    by (simp add: demoProvider_def)
qed

section \<open>Reconciliation: apply all\<close>

lemma replaceFirst_first:
  "s = pre @ pat @ post \<Longrightarrow> (\<forall>n<length pre. \<not> prefix pat (drop n s)) \<Longrightarrow>
   replaceFirst pat rep s = pre @ rep @ post"
proof (induction pre arbitrary: s)
  case Nil
  then have s: "s = pat @ post" by simp
  show ?case
  proof (cases s)
    case Nil
    with s show ?thesis by simp
  next
    case (Cons a list)
    have "prefix pat s" using s by simp
    moreover have "drop (length pat) s = post" using s by simp
    ultimately have "replaceFirst pat rep (a # list) = rep @ post" using Cons by simp
    then show ?thesis using Cons by simp
  qed
next
  case (Cons a pre)
  from Cons.prems(2) have n0: "\<not> prefix pat s" by force
  have "\<forall>n<length pre. \<not> prefix pat (drop n (pre @ pat @ post))"
  proof (intro allI impI)
    fix n assume "n < length pre"
    then have "Suc n < length (a # pre)" by simp
    with Cons.prems(2) have "\<not> prefix pat (drop (Suc n) s)" by blast
    then show "\<not> prefix pat (drop n (pre @ pat @ post))" using Cons.prems(1) by simp
  qed
  from Cons.IH[OF refl this] have "replaceFirst pat rep (pre @ pat @ post) = pre @ rep @ post" .
  then show ?case using Cons.prems(1) n0 by simp
qed

lemma list_all_upt: "list_all P [0..<k] \<Longrightarrow> \<forall>n<k. P n"
  by (simp add: list_all_iff)

lemma find_first:
  "files = xs @ f # ys \<Longrightarrow> (\<forall>g\<in>set xs. \<not> P g) \<Longrightarrow> P f \<Longrightarrow> find P files = Some f"
  by (induction xs arbitrary: files) auto

lemma find_Some_first:
  "find P files = Some f \<Longrightarrow> \<exists>xs ys. files = xs @ f # ys \<and> (\<forall>g\<in>set xs. \<not> P g) \<and> P f"
proof (induction files)
  case Nil
  then show ?case by simp
next
  case (Cons x files)
  show ?case
  proof (cases "P x")
    case True
    with Cons.prems have "x = f" by simp
    with True show ?thesis by (intro exI[of _ "[]"] exI[of _ files]) simp
  next
    case False
    with Cons.prems have "find P files = Some f" by simp
    from Cons.IH[OF this] obtain xs ys where
      "files = xs @ f # ys" "\<forall>g\<in>set xs. \<not> P g" "P f" by blast
    with False show ?thesis by (intro exI[of _ "x # xs"] exI[of _ ys]) simp
  qed
qed

lemma readFile_documents: "documents (snd (readFile e p w)) = documents w"
  by (auto simp: readFile_def Let_def emit_def split: option.splits node.splits)

lemma openTextDocument_documents: "documents (snd (openTextDocument e u w)) = documents w"
  by (auto simp: openTextDocument_def Let_def emit_def split: option.splits)

lemma applyOneEdit_documents:
  "find (\<lambda>f. endsWith (replaceFirst ''.codeforgedit'' [] editFile) (relativePath f)) files = Some f \<Longrightarrow>
   documents (snd (applyOneEdit e editFile files w)) = documents w
   \<or> (\<exists>z. documents (snd (applyOneEdit e editFile files w)) = (documents w)(uri f \<mapsto> z))"
proof -
  assume m: "find (\<lambda>f. endsWith (replaceFirst ''.codeforgedit'' [] editFile) (relativePath f)) files = Some f"
  obtain r1 w1 where rd: "readFile e editFile w = (r1, w1)" by force
  have d1: "documents w1 = documents w" using readFile_documents[of e editFile w] rd by simp
  obtain r2 w2 where op: "openTextDocument e (uri f) w1 = (r2, w2)" by force
  have d2: "documents w2 = documents w" using openTextDocument_documents[of e "uri f" w1] op d1 by simp
  show ?thesis
    using m rd op d1 d2
    by (cases r1; cases r2) (auto simp: applyOneEdit_def applyEdit_def emit_def)
qed

text \<open>
  C2, as stated, fails: with the tracked files \<open>a.ts\<close> and \<open>src/a.ts\<close>, in that order, and
  the tool writing the sentinel \<open>src/a.ts.codeforgedit\<close> with content \<open>Z\<close> next to the
  staged \<open>src/a.ts\<close>, "Apply All" leaves the document of \<open>src/a.ts\<close> as it was and
  overwrites the document of \<open>a.ts\<close>, whose relative path is a tail of the same path.
\<close>

theorem C2_apply_all_counterexample:
  "fst (findEditFiles (scenario noFault (prints ''done'' []) (Some ''Apply All'')) ''/tmp/codeforgex-7'' worldZ)
     = Inr [''/tmp/codeforgex-7/src/a.ts.codeforgedit'']
   \<and> documents (snd (applyAllEdits (scenario noFault (prints ''done'' []) (Some ''Apply All''))
        [''/tmp/codeforgex-7/src/a.ts.codeforgedit''] [fileA, fileSrcA] worldZ)) ''file:///w/src/a.ts''
     = Some ''old s''
   \<and> documents (snd (applyAllEdits (scenario noFault (prints ''done'' []) (Some ''Apply All''))
        [''/tmp/codeforgex-7/src/a.ts.codeforgedit''] [fileA, fileSrcA] worldZ)) ''file:///w/a.ts''
     = Some ''Z''
   \<and> documents (snd (processEdit
        (scenario noFault (writesSentinel [''tmp'', ''codeforgex-7'', ''src'', ''a.ts.codeforgedit''] ''Z'')
           (Some ''Apply All''))
        ''fix'' [fileA, fileSrcA] world0)) ''file:///w/src/a.ts''
     = Some ''old s''
   \<and> documents (snd (processEdit
        (scenario noFault (writesSentinel [''tmp'', ''codeforgex-7'', ''src'', ''a.ts.codeforgedit''] ''Z'')
           (Some ''Apply All''))
        ''fix'' [fileA, fileSrcA] world0)) ''file:///w/a.ts''
     = Some ''Z''"
  by code_simp

lemma clean_replaceFirst:
  assumes "cleanSentinel editFile"
  shows "replaceFirst ''.codeforgedit'' [] editFile = stripSentinel editFile"
proof -
  from assms obtain base where b: "editFile = base @ ''.codeforgedit''"
    by (auto simp: cleanSentinel_def suffix_def)
  then have st: "stripSentinel editFile = base" by (simp add: stripSentinel_def)
  from assms have "list_all (\<lambda>n. \<not> prefix ''.codeforgedit'' (drop n editFile))
                     [0..<length editFile - length ''.codeforgedit'']"
    by (simp add: cleanSentinel_def)
  then have "\<forall>n<length editFile - length ''.codeforgedit''. \<not> prefix ''.codeforgedit'' (drop n editFile)"
    by (rule list_all_upt)
  moreover have "length editFile - length ''.codeforgedit'' = length base" using b by simp
  ultimately have "\<forall>n<length base. \<not> prefix ''.codeforgedit'' (drop n editFile)" by simp
  from replaceFirst_first[of editFile base "''.codeforgedit''" "[]" "[]"] b this st
  show ?thesis by simp
qed

lemma applyOneEdit_clean:
  assumes "cleanSentinel editFile" and "applicable e (disk w) (documents w) files editFile"
  shows "\<exists>w1. applyOneEdit e editFile files w = (Inr (), w1) \<and> disk w1 = disk w
           \<and> documents w1 =
               (case selectedFile files editFile of
                  None \<Rightarrow> documents w
                | Some f \<Rightarrow>
                    (case lookup (disk w) (segments editFile) of
                       Some (File z) \<Rightarrow> (documents w)(uri f \<mapsto> z)
                     | _ \<Rightarrow> documents w))
           \<and> (selectedFile files editFile = None \<longrightarrow> w1 = w)"
proof (cases "selectedFile files editFile")
  case None
  then have "find (\<lambda>g. endsWith (stripSentinel editFile) (relativePath g)) files = None"
    by (simp add: selectedFile_def endsWith_def)
  then have "applyOneEdit e editFile files w = (Inr (), w)"
    by (simp add: applyOneEdit_def clean_replaceFirst[OF assms(1)])
  with None show ?thesis by simp
next
  case (Some f)
  then have fnd: "find (\<lambda>g. endsWith (stripSentinel editFile) (relativePath g)) files = Some f"
    by (simp add: selectedFile_def endsWith_def)
  from assms(2) Some obtain z old where a:
    "fault e (ReadFile editFile) = None" "lookup (disk w) (segments editFile) = Some (File z)"
    "fault e (OpenTextDocument (uri f)) = None" "documents w (uri f) = Some old"
    by (auto simp: applicable_def split: option.splits node.splits)
  have rd: "readFile e editFile w = (Inr z, emit (ReadFile editFile) w)"
    using a(1,2) by (simp add: readFile_def Let_def emit_def)
  have od: "openTextDocument e (uri f) (emit (ReadFile editFile) w)
              = (Inr old, emit (OpenTextDocument (uri f)) (emit (ReadFile editFile) w))"
    using a(3,4) by (simp add: openTextDocument_def Let_def emit_def)
  have "applyOneEdit e editFile files w =
          (Inr (), applyEdit (uri f) z (emit (OpenTextDocument (uri f)) (emit (ReadFile editFile) w)))"
    by (simp add: applyOneEdit_def clean_replaceFirst[OF assms(1)] fnd rd od)
  then show ?thesis using Some a(2) by (simp add: applyEdit_def emit_def)
qed

lemma applicable_mono:
  "applicable e d docs files editFile \<Longrightarrow> (\<And>u. docs u \<noteq> None \<Longrightarrow> docs' u \<noteq> None) \<Longrightarrow>
   applicable e d docs' files editFile"
  by (auto simp: applicable_def split: option.splits)

lemma applyEditsLoop_reached:
  "\<forall>ed\<in>set reached. cleanSentinel ed \<and> applicable e (disk w) (documents w) files ed \<Longrightarrow>
   \<exists>w1. applyEditsLoop e (reached @ rest) files w = applyEditsLoop e rest files w1
        \<and> disk w1 = disk w
        \<and> documents w1 = spec_applyAll (disk w) files reached (documents w)"
proof (induction reached arbitrary: w)
  case Nil
  show ?case by (intro exI[of _ w]) simp
next
  case (Cons ed reached)
  let ?D = "case selectedFile files ed of
              None \<Rightarrow> documents w
            | Some f \<Rightarrow>
                (case lookup (disk w) (segments ed) of
                   Some (File z) \<Rightarrow> (documents w)(uri f \<mapsto> z)
                 | _ \<Rightarrow> documents w)"
  from Cons.prems have c: "cleanSentinel ed" and a: "applicable e (disk w) (documents w) files ed"
    by simp_all
  from applyOneEdit_clean[OF c a] obtain w' where
    st: "applyOneEdit e ed files w = (Inr (), w')" and dk: "disk w' = disk w"
    and dc: "documents w' = ?D"
    by blast
  have keep: "documents w u \<noteq> None \<Longrightarrow> documents w' u \<noteq> None" for u
    unfolding dc by (auto split: option.splits node.splits)
  have "\<forall>x\<in>set reached. cleanSentinel x \<and> applicable e (disk w') (documents w') files x"
  proof
    fix x assume x: "x \<in> set reached"
    with Cons.prems have "cleanSentinel x" "applicable e (disk w) (documents w) files x" by simp_all
    then show "cleanSentinel x \<and> applicable e (disk w') (documents w') files x"
      using applicable_mono[of e "disk w" "documents w" files x "documents w'"] keep dk by simp
  qed
  from Cons.IH[OF this] obtain w1 where
    l: "applyEditsLoop e (reached @ rest) files w' = applyEditsLoop e rest files w1"
    and d1: "disk w1 = disk w'"
    and c1: "documents w1 = spec_applyAll (disk w') files reached (documents w')"
    by blast
  have "applyEditsLoop e ((ed # reached) @ rest) files w = applyEditsLoop e rest files w1"
    using st l by simp
  moreover have "disk w1 = disk w" using d1 dk by simp
  moreover have "documents w1 = spec_applyAll (disk w) files (ed # reached) (documents w)"
    using c1 dk dc by simp
  ultimately show ?case by blast
qed

lemma applyEditsLoop_unmatched:
  "\<forall>ed\<in>set eds. cleanSentinel ed \<and> selectedFile files ed = None \<Longrightarrow>
   applyEditsLoop e eds files w = (Inr (), w)"
proof (induction eds)
  case Nil
  show ?case by simp
next
  case (Cons ed eds)
  then have c: "cleanSentinel ed" and n: "selectedFile files ed = None" by simp_all
  from n have "applicable e (disk w) (documents w) files ed" by (simp add: applicable_def)
  from applyOneEdit_clean[OF c this] n have "applyOneEdit e ed files w = (Inr (), w)" by auto
  then show ?case using Cons by simp
qed

text \<open>
  C2, amended. Apply-all goes through the discovered sentinel files in their order. As
  long as each sentinel reached so far holds the sentinel suffix at its end and nowhere
  before and, when it selects a tracked file, can be read and has the document of that
  file opened, the loop goes on to the next one, and the documents are then as the
  reading above says: each such sentinel has replaced the whole text of the document of
  the first tracked file, in set order, whose relative path is a tail of its un-suffixed
  path, and of no other document; a sentinel that selects no tracked file has changed
  nothing. When all discovered sentinels are such, apply-all succeeds with exactly these
  documents; when none of them selects a file, it reads, opens and changes nothing.
\<close>

theorem C2_apply_all_sentinels:
  assumes "\<forall>ed\<in>set reached. cleanSentinel ed \<and> applicable e (disk w) (documents w) files ed"
  shows "(\<exists>w1. applyEditsLoop e (reached @ rest) files w = applyEditsLoop e rest files w1
              \<and> disk w1 = disk w
              \<and> documents w1 = spec_applyAll (disk w) files reached (documents w))
       \<and> fst (applyAllEdits e reached files w) = Inr ()
       \<and> documents (snd (applyAllEdits e reached files w))
           = spec_applyAll (disk w) files reached (documents w)
       \<and> ((\<forall>ed\<in>set reached. selectedFile files ed = None) \<longrightarrow>
             applyAllEdits e reached files w
               = (Inr (), emit (ShowInformationMessage ''All edits applied successfully!'') w))
       \<and> (\<forall>ed f. selectedFile files ed = Some f \<longrightarrow>
             (\<exists>xs ys. files = xs @ f # ys
                 \<and> (\<forall>g\<in>set xs. \<not> suffix (relativePath g) (stripSentinel ed))
                 \<and> suffix (relativePath f) (stripSentinel ed)))"
proof -
  have loop: "\<exists>w1. applyEditsLoop e (reached @ rest) files w = applyEditsLoop e rest files w1
              \<and> disk w1 = disk w
              \<and> documents w1 = spec_applyAll (disk w) files reached (documents w)"
    using assms by (rule applyEditsLoop_reached)
  from applyEditsLoop_reached[OF assms, of "[]"] obtain w1 where
    w1: "applyEditsLoop e reached files w = (Inr (), w1)"
        "documents w1 = spec_applyAll (disk w) files reached (documents w)"
    by auto
  have all: "applyAllEdits e reached files w
               = (Inr (), emit (ShowInformationMessage ''All edits applied successfully!'') w1)"
    using w1(1) by (simp add: applyAllEdits_def)
  have ok: "fst (applyAllEdits e reached files w) = Inr ()" using all by simp
  have docs: "documents (snd (applyAllEdits e reached files w))
           = spec_applyAll (disk w) files reached (documents w)"
    using all w1(2) by (simp add: emit_def)
  have skip: "(\<forall>ed\<in>set reached. selectedFile files ed = None) \<longrightarrow>
             applyAllEdits e reached files w
               = (Inr (), emit (ShowInformationMessage ''All edits applied successfully!'') w)"
  proof
    assume "\<forall>ed\<in>set reached. selectedFile files ed = None"
    with assms have "\<forall>ed\<in>set reached. cleanSentinel ed \<and> selectedFile files ed = None" by simp
    from applyEditsLoop_unmatched[OF this]
    show "applyAllEdits e reached files w
               = (Inr (), emit (ShowInformationMessage ''All edits applied successfully!'') w)"
      by (simp add: applyAllEdits_def)
  qed
  have first: "\<forall>ed f. selectedFile files ed = Some f \<longrightarrow>
             (\<exists>xs ys. files = xs @ f # ys
                 \<and> (\<forall>g\<in>set xs. \<not> suffix (relativePath g) (stripSentinel ed))
                 \<and> suffix (relativePath f) (stripSentinel ed))"
    unfolding selectedFile_def by (intro allI impI) (erule find_Some_first)
  from loop ok docs skip first show ?thesis by blast
qed

theorem C2_apply_all_sentinels_witness:
  "fst (findEditFiles (scenario noFault (prints ''done'' []) (Some ''Apply All'')) ''/tmp/codeforgex-7'' worldTwo)
     = Inr [''/tmp/codeforgex-7/b.ts.codeforgedit'', ''/tmp/codeforgex-7/src/a.ts.codeforgedit'',
            ''/tmp/codeforgex-7/notes.md.codeforgedit'']
   \<and> list_all (\<lambda>ed. cleanSentinel ed
                  \<and> applicable (scenario noFault (prints ''done'' []) (Some ''Apply All''))
                       (disk worldTwo) (documents worldTwo) [fileSrcA, fileB] ed)
        [''/tmp/codeforgex-7/b.ts.codeforgedit'', ''/tmp/codeforgex-7/src/a.ts.codeforgedit'',
         ''/tmp/codeforgex-7/notes.md.codeforgedit'']
   \<and> fst (applyAllEdits (scenario noFault (prints ''done'' []) (Some ''Apply All''))
        [''/tmp/codeforgex-7/b.ts.codeforgedit'', ''/tmp/codeforgex-7/src/a.ts.codeforgedit'',
         ''/tmp/codeforgex-7/notes.md.codeforgedit''] [fileSrcA, fileB] worldTwo) = Inr ()
   \<and> documents (snd (applyAllEdits (scenario noFault (prints ''done'' []) (Some ''Apply All''))
        [''/tmp/codeforgex-7/b.ts.codeforgedit'', ''/tmp/codeforgex-7/src/a.ts.codeforgedit'',
         ''/tmp/codeforgex-7/notes.md.codeforgedit''] [fileSrcA, fileB] worldTwo))
     = (documents worldTwo)(''file:///w/b.ts'' \<mapsto> ''B2'', ''file:///w/src/a.ts'' \<mapsto> ''Z'')"
proof -
  let ?e = "scenario noFault (prints ''done'' []) (Some ''Apply All'')"
  let ?L = "[''/tmp/codeforgex-7/b.ts.codeforgedit'', ''/tmp/codeforgex-7/src/a.ts.codeforgedit'',
             ''/tmp/codeforgex-7/notes.md.codeforgedit'']"
  have f: "fst (findEditFiles ?e ''/tmp/codeforgex-7'' worldTwo) = Inr ?L"
    by code_simp
  have l: "list_all (\<lambda>ed. cleanSentinel ed
                  \<and> applicable ?e (disk worldTwo) (documents worldTwo) [fileSrcA, fileB] ed) ?L"
    by code_simp
  then have h: "\<forall>ed\<in>set ?L. cleanSentinel ed
                  \<and> applicable ?e (disk worldTwo) (documents worldTwo) [fileSrcA, fileB] ed"
    by (simp only: list_all_iff)
  note inst = C2_apply_all_sentinels[OF h, where rest = "[]"]
  have r: "fst (applyAllEdits ?e ?L [fileSrcA, fileB] worldTwo) = Inr ()"
    using inst by blast
  have d: "documents (snd (applyAllEdits ?e ?L [fileSrcA, fileB] worldTwo))
             = spec_applyAll (disk worldTwo) [fileSrcA, fileB] ?L (documents worldTwo)"
    using inst by blast
  have s1: "selectedFile [fileSrcA, fileB] ''/tmp/codeforgex-7/b.ts.codeforgedit'' = Some fileB"
    by code_simp
  have s2: "selectedFile [fileSrcA, fileB] ''/tmp/codeforgex-7/src/a.ts.codeforgedit'' = Some fileSrcA"
    by code_simp
  have s3: "selectedFile [fileSrcA, fileB] ''/tmp/codeforgex-7/notes.md.codeforgedit'' = None"
    by code_simp
  have k1: "lookup (disk worldTwo) (segments ''/tmp/codeforgex-7/b.ts.codeforgedit'') = Some (File ''B2'')"
    by code_simp
  have k2: "lookup (disk worldTwo) (segments ''/tmp/codeforgex-7/src/a.ts.codeforgedit'') = Some (File ''Z'')"
    by code_simp
  have u: "uri fileB = ''file:///w/b.ts''" "uri fileSrcA = ''file:///w/src/a.ts''"
    by (simp_all add: fileB_def fileSrcA_def)
  have v: "spec_applyAll (disk worldTwo) [fileSrcA, fileB] ?L (documents worldTwo)
             = (documents worldTwo)(''file:///w/b.ts'' \<mapsto> ''B2'', ''file:///w/src/a.ts'' \<mapsto> ''Z'')"
    by (simp only: spec_applyAll.simps s1 s2 s3 k1 k2 u option.case node.case)
  from f l r d v show ?thesis by simp
qed

text \<open>
  C9. One sentinel file changes at most one live document. The tracked file it selects
  is the first, in set order, whose relative path is a plain string suffix of the
  un-suffixed path (no separator is required before it), and the un-suffixed path is the
  sentinel path with the first occurrence of the suffix text deleted, wherever it stands.
\<close>

theorem C9_first_suffix_match_one_document:
  "(case find (\<lambda>f. suffix (relativePath f) (replaceFirst ''.codeforgedit'' [] editFile)) files of
      None \<Rightarrow> applyOneEdit e editFile files w = (Inr (), w)
    | Some f \<Rightarrow>
        (\<exists>xs ys. files = xs @ f # ys
            \<and> (\<forall>g\<in>set xs. \<not> suffix (relativePath g) (replaceFirst ''.codeforgedit'' [] editFile))
            \<and> suffix (relativePath f) (replaceFirst ''.codeforgedit'' [] editFile))
        \<and> (documents (snd (applyOneEdit e editFile files w)) = documents w
           \<or> (\<exists>z. documents (snd (applyOneEdit e editFile files w)) = (documents w)(uri f \<mapsto> z))))
   \<and> (editFile = pre @ ''.codeforgedit'' @ post
       \<and> (\<forall>n<length pre. \<not> prefix ''.codeforgedit'' (drop n editFile))
      \<longrightarrow> replaceFirst ''.codeforgedit'' [] editFile = pre @ post)"
proof -
  let ?P = "\<lambda>f. suffix (relativePath f) (replaceFirst ''.codeforgedit'' [] editFile)"
  have e: "(\<lambda>f. endsWith (replaceFirst ''.codeforgedit'' [] editFile) (relativePath f)) = ?P"
    by (simp add: endsWith_def)
  have first: "case find ?P files of
      None \<Rightarrow> applyOneEdit e editFile files w = (Inr (), w)
    | Some f \<Rightarrow>
        (\<exists>xs ys. files = xs @ f # ys \<and> (\<forall>g\<in>set xs. \<not> ?P g) \<and> ?P f)
        \<and> (documents (snd (applyOneEdit e editFile files w)) = documents w
           \<or> (\<exists>z. documents (snd (applyOneEdit e editFile files w)) = (documents w)(uri f \<mapsto> z)))"
  proof (cases "find ?P files")
    case None
    then show ?thesis by (simp add: applyOneEdit_def e)
  next
    case (Some f)
    from find_Some_first[OF Some] applyOneEdit_documents[of editFile files f e w] Some
    show ?thesis by (simp add: e)
  qed
  have second: "editFile = pre @ ''.codeforgedit'' @ post
       \<and> (\<forall>n<length pre. \<not> prefix ''.codeforgedit'' (drop n editFile))
      \<longrightarrow> replaceFirst ''.codeforgedit'' [] editFile = pre @ post"
  proof (intro impI, elim conjE)
    assume a: "editFile = pre @ ''.codeforgedit'' @ post"
      and b: "\<forall>n<length pre. \<not> prefix ''.codeforgedit'' (drop n editFile)"
    from replaceFirst_first[OF a b, of "[]"]
    show "replaceFirst ''.codeforgedit'' [] editFile = pre @ post" by simp
  qed
  from first second show ?thesis by blast
qed

theorem C9_first_suffix_match_one_document_witness:
  "find (\<lambda>f. suffix (relativePath f) (replaceFirst ''.codeforgedit'' [] ''/tmp/codeforgex-7/src/a.ts.codeforgedit''))
      [fileB, fileA, fileSrcA] = Some fileA
   \<and> documents (snd (applyOneEdit (scenario noFault (prints ''done'' []) (Some ''Apply All''))
        ''/tmp/codeforgex-7/src/a.ts.codeforgedit'' [fileB, fileA, fileSrcA] worldZ))
     = (documents worldZ)(''file:///w/a.ts'' \<mapsto> ''Z'')
   \<and> replaceFirst ''.codeforgedit'' [] ''/t/a.codeforgedit.ts.codeforgedit'' = ''/t/a.ts.codeforgedit''"
proof -
  let ?e = "scenario noFault (prints ''done'' []) (Some ''Apply All'')"
  have f: "find (\<lambda>f. suffix (relativePath f) (replaceFirst ''.codeforgedit'' [] ''/tmp/codeforgex-7/src/a.ts.codeforgedit''))
      [fileB, fileA, fileSrcA] = Some fileA"
    by code_simp
  have "list_all (\<lambda>n. \<not> prefix ''.codeforgedit'' (drop n ''/t/a.codeforgedit.ts.codeforgedit''))
          [0..<length ''/t/a'']"
    by code_simp
  then have h: "\<forall>n<length ''/t/a''. \<not> prefix ''.codeforgedit'' (drop n ''/t/a.codeforgedit.ts.codeforgedit'')"
    by (rule list_all_upt)
  have u: "uri fileA = ''file:///w/a.ts''" by (simp add: fileA_def)
  have e: "''/t/a.codeforgedit.ts.codeforgedit'' = ''/t/a'' @ ''.codeforgedit'' @ ''.ts.codeforgedit''"
    by simp
  have "replaceFirst ''.codeforgedit'' [] ''/t/a.codeforgedit.ts.codeforgedit'' = ''/t/a'' @ ''.ts.codeforgedit''"
    by (rule mp[OF C9_first_suffix_match_one_document
            [where editFile = "''/t/a.codeforgedit.ts.codeforgedit''" and pre = "''/t/a''"
               and post = "''.ts.codeforgedit''", THEN conjunct2] conjI[OF e h]])
  then have r: "replaceFirst ''.codeforgedit'' [] ''/t/a.codeforgedit.ts.codeforgedit'' = ''/t/a.ts.codeforgedit''"
    by simp
  define D where "D = documents (snd (applyOneEdit ?e ''/tmp/codeforgex-7/src/a.ts.codeforgedit''
              [fileB, fileA, fileSrcA] worldZ))"
  have d: "D ''file:///w/a.ts'' = Some ''Z''"
    unfolding D_def by code_simp
  have o: "documents worldZ ''file:///w/a.ts'' = Some ''old a''"
    by code_simp
  have "D = documents worldZ \<or> (\<exists>z. D = (documents worldZ)(''file:///w/a.ts'' \<mapsto> z))"
    unfolding D_def
    using C9_first_suffix_match_one_document
            [where editFile = "''/tmp/codeforgex-7/src/a.ts.codeforgedit''"
               and files = "[fileB, fileA, fileSrcA]" and e = ?e and w = worldZ, THEN conjunct1]
    by (simp only: f option.case u)
  then have "D = (documents worldZ)(''file:///w/a.ts'' \<mapsto> ''Z'')"
  proof
    assume "D = documents worldZ"
    with o have "D ''file:///w/a.ts'' = Some ''old a''" by simp
    with d show ?thesis by simp
  next
    assume "\<exists>z. D = (documents worldZ)(''file:///w/a.ts'' \<mapsto> z)"
    then obtain z where z: "D = (documents worldZ)(''file:///w/a.ts'' \<mapsto> z)" ..
    then have "D ''file:///w/a.ts'' = Some z" by simp
    with d have "z = ''Z''" by simp
    with z show ?thesis by simp
  qed
  then have a: "documents (snd (applyOneEdit ?e ''/tmp/codeforgex-7/src/a.ts.codeforgedit''
              [fileB, fileA, fileSrcA] worldZ)) = (documents worldZ)(''file:///w/a.ts'' \<mapsto> ''Z'')"
    unfolding D_def .
  from conjI[OF f conjI[OF a r]] show ?thesis .
qed

end
